(* ===== verification/CI_Prelude.thy ===== *)
theory CI_Prelude
  imports Main "HOL-Library.Word"
begin

text \<open>
  Shared vocabulary of the CompositeInput development: the C++ types the code uses
  (nullable strong pointers, out parameters, fixed-width integers), the collections of
  rewrite rules the component theories fill, counting lemmas for lists that are updated
  by index, and the interface of a transition system with an invariant.
\<close>

section \<open>Rule collections\<close>

named_theorems port_ops \<open>definitions of the port's critical sections\<close>
named_theorems effect_simps \<open>what observers see of dispatched callbacks\<close>
named_theorems inv_simps \<open>unfolding of the port and system invariants\<close>

section \<open>C++ types\<close>

text \<open>
  A strong pointer \<open>android::sp<T>\<close> is null or refers to an object. An out parameter
  \<open>T* _aidl_return\<close> is null, or points to a cell that holds a value: the model of
  a function takes the cell and returns it updated.
\<close>

type_synonym 'a sp = "'a option"
type_synonym 'a out = "'a option"

type_synonym uint16 = "16 word"
type_synonym uint32 = "32 word"
type_synonym uint64 = "64 word"

text \<open>
  Signed integers are \<open>int\<close>; \<open>in_int32\<close> says that a value fits \<open>int32_t\<close>, and a
  \<open>static_cast\<close> from an unsigned word reads its two's complement.
\<close>

definition in_int32 :: "int \<Rightarrow> bool" where
  "in_int32 i \<longleftrightarrow> - (2 ^ 31) \<le> i \<and> i < 2 ^ 31"

definition cast_int32 :: "'a::len word \<Rightarrow> int" where
  "cast_int32 w = sint (ucast w :: 32 word)"

definition cast_int64 :: "64 word \<Rightarrow> int" where
  "cast_int64 w = sint w"

lemma cast_int32_bounds: "in_int32 (cast_int32 w)"
  using sint_range_size [of "ucast w :: 32 word"]
  by (auto simp: in_int32_def cast_int32_def word_size)

lemma cast_int32_small:
  assumes "uint w < 2 ^ 31"
  shows "cast_int32 (w :: 32 word) = uint w"
proof -
  have "- (2 ^ 31) \<le> uint w"
    by (rule order_trans [OF _ uint_ge_0]) simp
  with assms have "signed_take_bit 31 (uint w) = uint w"
    by (simp only: signed_take_bit_int_eq_self)
  then show ?thesis
    by (simp add: cast_int32_def sint_uint)
qed

text \<open>
  An IEEE value of type \<open>float\<close> or \<open>double\<close>, as far as the code looks at one: not a
  number, an infinity (with its sign), or the dyadic rational \<open>m * 2 ^ e\<close>.
\<close>

datatype cfloat = FNaN | FInf bool | FFin int int

fun float_le_zero :: "cfloat \<Rightarrow> bool" where
  "float_le_zero FNaN = False"
| "float_le_zero (FInf negative) = negative"
| "float_le_zero (FFin m e) = (m \<le> 0)"

section \<open>Counting in lists updated by index\<close>

definition cnt :: "('a \<Rightarrow> bool) \<Rightarrow> 'a list \<Rightarrow> int" where
  "cnt P xs = int (length (filter P xs))"

lemma cnt_simps [simp]:
  "cnt P [] = 0"
  "cnt P (x # xs) = of_bool (P x) + cnt P xs"
  "cnt P (xs @ ys) = cnt P xs + cnt P ys"
  by (simp_all add: cnt_def)

lemma cnt_nonneg [simp]: "0 \<le> cnt P xs"
  by (simp add: cnt_def)

lemma cnt_update:
  "k < length xs \<Longrightarrow>
   cnt P (xs[k := x]) = cnt P xs + of_bool (P x) - of_bool (P (xs ! k))"
proof (induction xs arbitrary: k)
  case Nil
  then show ?case by simp
next
  case (Cons y ys)
  then show ?case by (cases k) auto
qed

lemma cnt_pos: "k < length xs \<Longrightarrow> P (xs ! k) \<Longrightarrow> 0 < cnt P xs"
  unfolding cnt_def by (metis filter_empty_conv length_greater_0_conv nth_mem of_nat_0_less_iff)

lemma cnt_zero_iff: "cnt P xs = 0 \<longleftrightarrow> (\<forall>x \<in> set xs. \<not> P x)"
  by (induction xs) (auto simp: cnt_def)

lemma cnt_mono: "(\<And>x. x \<in> set xs \<Longrightarrow> P x \<Longrightarrow> Q x) \<Longrightarrow> cnt P xs \<le> cnt Q xs"
  by (induction xs) (auto simp: of_bool_def)

lemma cnt_cong: "(\<And>x. x \<in> set xs \<Longrightarrow> P x = Q x) \<Longrightarrow> cnt P xs = cnt Q xs"
  by (auto simp: cnt_def cong: filter_cong)

section \<open>Transition systems\<close>

text \<open>
  The interface every state machine of the development is proved through: an invariant
  that holds initially and is kept by each step holds in every reachable state.
\<close>

locale transition_system =
  fixes init :: "'s \<Rightarrow> bool"
    and step :: "'s \<Rightarrow> 's \<Rightarrow> bool"
    and inv :: "'s \<Rightarrow> bool"
  assumes inv_init: "init s \<Longrightarrow> inv s"
    and inv_step: "inv s \<Longrightarrow> step s t \<Longrightarrow> inv t"
begin

lemma inv_steps: "inv s \<Longrightarrow> step\<^sup>*\<^sup>* s t \<Longrightarrow> inv t"
  by (rotate_tac, induction rule: rtranclp_induct) (auto intro: inv_step)

lemma reachable_inv: "init s \<Longrightarrow> step\<^sup>*\<^sup>* s t \<Longrightarrow> inv t"
  by (blast intro: inv_init inv_steps)

end

section \<open>Histories\<close>

text \<open>
  A system that also writes down what happened. When every step of the recorder is a step of the
  system underneath and every such step can be recorded, runs of the two correspond, so what
  is proved of recorded runs is proved of all runs.
\<close>

locale history =
  fixes step :: "'s \<Rightarrow> 's \<Rightarrow> bool"
    and hstep :: "'h \<Rightarrow> 'h \<Rightarrow> bool"
    and proj :: "'h \<Rightarrow> 's"
  assumes forget: "hstep h h' \<Longrightarrow> step (proj h) (proj h')"
    and extend: "step (proj h) s \<Longrightarrow> \<exists>h'. hstep h h' \<and> proj h' = s"
begin

lemma forget_steps: "hstep\<^sup>*\<^sup>* h h' \<Longrightarrow> step\<^sup>*\<^sup>* (proj h) (proj h')"
  by (induction rule: rtranclp_induct) (auto dest: forget intro: rtranclp.rtrancl_into_rtrancl)

lemma extend_steps: "step\<^sup>*\<^sup>* (proj h) s \<Longrightarrow> \<exists>h'. hstep\<^sup>*\<^sup>* h h' \<and> proj h' = s"
proof (induction rule: rtranclp_induct)
  case (step s s')
  then obtain h' where h': "hstep\<^sup>*\<^sup>* h h'" "proj h' = s" by blast
  with step.hyps(2) obtain h'' where "hstep h' h''" "proj h'' = s'" using extend [of h' s'] by blast
  with h'(1) show ?case by (intro exI [of _ h'']) (auto intro: rtranclp.rtrancl_into_rtrancl)
qed auto

end

section \<open>Simulations\<close>

text \<open>
  A machine answers inputs one at a time. When one step of a concrete machine is matched by
  a step of an abstract machine on the abstracted state, with the same output, whole runs
  match.
\<close>

fun run_machine :: "('i \<Rightarrow> 's \<Rightarrow> 'o \<times> 's) \<Rightarrow> 'i list \<Rightarrow> 's \<Rightarrow> 'o list \<times> 's" where
  "run_machine step [] s = ([], s)"
| "run_machine step (i # is) s =
     (let (out, t) = step i s; (outs, u) = run_machine step is t in (out # outs, u))"

locale simulation =
  fixes cstep :: "'i \<Rightarrow> 's \<Rightarrow> 'o \<times> 's"
    and astep :: "'i \<Rightarrow> 'a \<Rightarrow> 'o \<times> 'a"
    and abs :: "'s \<Rightarrow> 'a"
    and ok :: "'s \<Rightarrow> bool"
  assumes ok_step: "ok s \<Longrightarrow> ok (snd (cstep i s))"
    and commute: "ok s \<Longrightarrow> astep i (abs s) = (fst (cstep i s), abs (snd (cstep i s)))"
begin

lemma ok_run: "ok s \<Longrightarrow> ok (snd (run_machine cstep is s))"
  by (induction "is" arbitrary: s) (auto simp: case_prod_unfold Let_def ok_step)

lemma run_commutes:
  "ok s \<Longrightarrow>
   run_machine astep is (abs s) =
     (fst (run_machine cstep is s), abs (snd (run_machine cstep is s)))"
  by (induction "is" arbitrary: s) (auto simp: case_prod_unfold Let_def ok_step commute)

end

end
