(* ===== verification/Aidl_Types.thy ===== *)
theory Aidl_Types
  imports CI_Prelude
begin

text \<open>
  The AIDL vocabulary the component is written against, as far as the sources under src/
  name it: lifecycle states, signal status, properties and their values, metadata,
  capabilities and Binder statuses. The AIDL files themselves are generated code outside
  the repository: only the enumerators and fields that the C++ code mentions appear here,
  and an enumeration value that the code does not name is carried by an extra constructor.
\<close>

section \<open>Enumerations\<close>

datatype lifecycle = CLOSED | OPENING | READY | STARTING | STARTED | STOPPING | CLOSING

instantiation lifecycle :: enum
begin

definition enum_lifecycle :: "lifecycle list" where
  "enum_lifecycle = [CLOSED, OPENING, READY, STARTING, STARTED, STOPPING, CLOSING]"

definition enum_all_lifecycle :: "(lifecycle \<Rightarrow> bool) \<Rightarrow> bool" where
  "enum_all_lifecycle P \<longleftrightarrow>
     P CLOSED \<and> P OPENING \<and> P READY \<and> P STARTING \<and> P STARTED \<and> P STOPPING \<and> P CLOSING"

definition enum_ex_lifecycle :: "(lifecycle \<Rightarrow> bool) \<Rightarrow> bool" where
  "enum_ex_lifecycle P \<longleftrightarrow>
     P CLOSED \<or> P OPENING \<or> P READY \<or> P STARTING \<or> P STARTED \<or> P STOPPING \<or> P CLOSING"

instance
proof
  show "(UNIV :: lifecycle set) = set enum_class.enum"
    by (auto simp: enum_lifecycle_def) (metis lifecycle.exhaust)
  show "distinct (enum_class.enum :: lifecycle list)"
    by (simp add: enum_lifecycle_def)
  show "\<And>P :: lifecycle \<Rightarrow> bool. enum_class.enum_all P = Ball UNIV P"
    by (auto simp: enum_all_lifecycle_def) (metis lifecycle.exhaust)
  show "\<And>P :: lifecycle \<Rightarrow> bool. enum_class.enum_ex P = Bex UNIV P"
    by (auto simp: enum_ex_lifecycle_def) (metis lifecycle.exhaust)
qed

end

datatype signal_status = NO_SIGNAL | UNSTABLE | NOT_SUPPORTED | STABLE | OTHER_SIGNAL int

datatype port_property =
    SIGNAL_STRENGTH
  | SIGNAL_QUALITY
  | METRIC_SIGNAL_LOCK_TIME
  | METRIC_SIGNAL_DROPS
  | METRIC_UPTIME
  | METRIC_SIGNAL_LOCK_COUNT
  | METRIC_LAST_SIGNAL_LOCK_TIME
  | METRIC_LAST_RESET_TIMESTAMP
  | OTHER_PROPERTY int

datatype property_type =
  BOOLEAN | INTEGER | LONG | FLOAT | DOUBLE | STRING | OTHER_TYPE int

section \<open>Property values and metadata\<close>

text \<open>
  \<open>PropertyValue.value\<close> is an optional tagged union. The alternatives that the code
  tells apart by tag are listed; \<open>OtherValue\<close> stands for any alternative it never names.
\<close>

datatype value_union =
    BooleanValue bool
  | IntValue int
  | LongValue int
  | FloatValue cfloat
  | DoubleValue cfloat
  | StringValue string
  | OtherValue int

datatype property_value = PropertyValue (pv_value: "value_union option")

record property_metadata =
  md_key :: port_property
  md_type :: property_type
  md_readOnly :: bool
  md_isMetric :: bool
  md_description :: string

record property_kv_pair =
  kv_property :: port_property
  kv_value :: property_value

section \<open>Capabilities, status, resolution\<close>

record port_capabilities =
  pc_supportedProperties :: "port_property list"
  pc_propertyMetadata :: "property_metadata option list option"

record platform_capabilities =
  pl_halVersion :: string
  pl_maxPorts :: int
  pl_maximumConcurrentStartedPorts :: int
  pl_supportedProperties :: "port_property list"
  pl_propertyMetadata :: "property_metadata option list option"
  pl_macrovisionDetectionSupported :: bool

record video_resolution =
  vr_pixelWidth :: int
  vr_pixelHeight :: int
  vr_interlaced :: bool
  vr_frameRateInHz :: cfloat

record port_status =
  ps_portId :: int
  ps_connected :: bool
  ps_active :: bool
  ps_signalStatus :: signal_status
  ps_detectedResolution :: "video_resolution option"

record port_info =
  pi_name :: string
  pi_description :: string

section \<open>Binder\<close>

datatype exception_code =
  EX_NULL_POINTER | EX_ILLEGAL_ARGUMENT | EX_ILLEGAL_STATE | EX_UNSUPPORTED_OPERATION

datatype status = StatusOk | StatusEx exception_code

text \<open>
  References to interface objects, to Binder nodes and to controller objects are opaque
  addresses; null is \<open>None\<close> of the \<open>sp\<close> around them.
\<close>

type_synonym iface = nat
type_synonym ibinder = nat
type_synonym controller = nat

end
