(* ===== verification/Event_Dispatch.thy ===== *)
theory Event_Dispatch
  imports Aidl_Types
begin

text \<open>
  Callback dispatch: \<open>vcomponent_CompositeInputEventListener.cpp\<close> (events to the
  registered observers) and \<open>vcomponent_CompositeInputControllerListener.cpp\<close>
  (events to the controlling client). A dispatch returns the list of interactions with
  libbinder in the order the code issues them. libbinder itself, the clients, the
  allocator and the clocks are parameters, collected in \<open>binder_env\<close>.
\<close>

section \<open>Environment and interactions\<close>

datatype effect =
    StateChanged iface lifecycle lifecycle
  | PropertyChanged iface port_property property_value
  | FlushCommands
  | PingBinder ibinder
  | ConnectionChanged iface bool
  | SignalStatusChanged iface signal_status
  | VideoModeChanged iface video_resolution
  | LinkToDeath ibinder uint64
  | UnlinkToDeath ibinder uint64

text \<open>
  \<open>asBinder\<close> is \<open>IInterface::asBinder\<close> (null for an object without a Binder node),
  \<open>remoteBinder\<close> tells whether \<open>IBinder::remoteBinder()\<close> is non-null,
  \<open>linkToDeathOk\<close> whether \<open>linkToDeath\<close> returns \<open>OK\<close>, and \<open>callbackOk\<close> whether
  the status of a callback is ok. \<open>newController\<close> is the address of the object that
  \<open>new CompositeInputController\<close> yields; the last two fields are the two clocks.
\<close>

record binder_env =
  asBinder :: "iface \<Rightarrow> ibinder sp"
  remoteBinder :: "ibinder \<Rightarrow> bool"
  linkToDeathOk :: "ibinder \<Rightarrow> bool"
  callbackOk :: "effect \<Rightarrow> bool"
  newController :: controller
  nowMs :: int
  nowWallClockMs :: int

text \<open>An environment in which every call succeeds, for concrete runs.\<close>

definition demo_env :: binder_env where
  "demo_env =
     \<lparr>asBinder = Some, remoteBinder = (\<lambda>b. True), linkToDeathOk = (\<lambda>b. True),
      callbackOk = (\<lambda>e. True), newController = 42, nowMs = 1000, nowWallClockMs = 2000\<rparr>"

section \<open>CompositeInputEventListener\<close>

definition waitForListenerDelivery :: "binder_env \<Rightarrow> iface \<Rightarrow> effect list" where
  "waitForListenerDelivery env l =
     (case asBinder env l of None \<Rightarrow> [] | Some b \<Rightarrow> [PingBinder b])"

text \<open>The first loop of \<open>onStateChanged\<close>: the callbacks, and the queued listeners.\<close>

fun stateCallbacks ::
  "binder_env \<Rightarrow> lifecycle \<Rightarrow> lifecycle \<Rightarrow> iface sp list \<Rightarrow> effect list \<times> iface list" where
  "stateCallbacks env old new [] = ([], [])"
| "stateCallbacks env old new (None # ls) = stateCallbacks env old new ls"
| "stateCallbacks env old new (Some l # ls) =
     (let (es, queued) = stateCallbacks env old new ls;
          e = StateChanged l old new
      in (e # es, if callbackOk env e then l # queued else queued))"

definition onStateChanged ::
  "binder_env \<Rightarrow> iface sp list \<Rightarrow> lifecycle \<Rightarrow> lifecycle \<Rightarrow> effect list" where
  "onStateChanged env listeners old new =
     (let (es, queued) = stateCallbacks env old new listeners
      in es @ (if queued = [] then []
               else FlushCommands # concat (map (waitForListenerDelivery env) queued)))"

fun propertyCallbacks ::
  "binder_env \<Rightarrow> port_property \<Rightarrow> property_value \<Rightarrow> iface sp list \<Rightarrow> effect list \<times> bool" where
  "propertyCallbacks env k v [] = ([], False)"
| "propertyCallbacks env k v (None # ls) = propertyCallbacks env k v ls"
| "propertyCallbacks env k v (Some l # ls) =
     (let (es, queued) = propertyCallbacks env k v ls;
          e = PropertyChanged l k v
      in (e # es, callbackOk env e \<or> queued))"

definition onPropertyChanged ::
  "binder_env \<Rightarrow> iface sp list \<Rightarrow> port_property \<Rightarrow> property_value \<Rightarrow> effect list" where
  "onPropertyChanged env listeners k v =
     (let (es, queued) = propertyCallbacks env k v listeners
      in es @ (if queued then [FlushCommands] else []))"

section \<open>CompositeInputControllerListener\<close>

definition onConnectionChanged :: "iface sp \<Rightarrow> bool \<Rightarrow> effect list" where
  "onConnectionChanged listener connected =
     (case listener of None \<Rightarrow> [] | Some l \<Rightarrow> [ConnectionChanged l connected])"

definition onSignalStatusChanged :: "iface sp \<Rightarrow> signal_status \<Rightarrow> effect list" where
  "onSignalStatusChanged listener signalStatus =
     (case listener of None \<Rightarrow> [] | Some l \<Rightarrow> [SignalStatusChanged l signalStatus])"

definition onVideoModeChanged :: "iface sp \<Rightarrow> video_resolution \<Rightarrow> effect list" where
  "onVideoModeChanged listener resolution =
     (case listener of None \<Rightarrow> [] | Some l \<Rightarrow> [VideoModeChanged l resolution])"

section \<open>What an observer sees\<close>

text \<open>
  The lifecycle edges and the property updates delivered to observer \<open>l\<close>, and the
  callbacks to the controlling client, as projections of a list of interactions.
\<close>

fun state_edge_of :: "iface \<Rightarrow> effect \<Rightarrow> (lifecycle \<times> lifecycle) option" where
  "state_edge_of l (StateChanged l' old new) = (if l' = l then Some (old, new) else None)"
| "state_edge_of l _ = None"

fun property_update_of :: "iface \<Rightarrow> effect \<Rightarrow> (port_property \<times> property_value) option" where
  "property_update_of l (PropertyChanged l' k v) = (if l' = l then Some (k, v) else None)"
| "property_update_of l _ = None"

fun is_controller_callback :: "effect \<Rightarrow> bool" where
  "is_controller_callback (ConnectionChanged _ _) = True"
| "is_controller_callback (SignalStatusChanged _ _) = True"
| "is_controller_callback (VideoModeChanged _ _) = True"
| "is_controller_callback _ = False"

fun is_callback :: "effect \<Rightarrow> bool" where
  "is_callback (StateChanged _ _ _) = True"
| "is_callback (PropertyChanged _ _ _) = True"
| "is_callback e = is_controller_callback e"

definition seen_edges :: "iface \<Rightarrow> effect list \<Rightarrow> (lifecycle \<times> lifecycle) list" where
  "seen_edges l es = List.map_filter (state_edge_of l) es"

definition seen_updates :: "iface \<Rightarrow> effect list \<Rightarrow> (port_property \<times> property_value) list" where
  "seen_updates l es = List.map_filter (property_update_of l) es"

definition controller_callbacks :: "effect list \<Rightarrow> effect list" where
  "controller_callbacks es = filter is_controller_callback es"

lemma seen_simps [effect_simps]:
  "seen_edges l [] = []"
  "seen_edges l (e # es) = (case state_edge_of l e of None \<Rightarrow> [] | Some x \<Rightarrow> [x]) @ seen_edges l es"
  "seen_edges l (es @ es') = seen_edges l es @ seen_edges l es'"
  "seen_updates l [] = []"
  "seen_updates l (e # es) =
     (case property_update_of l e of None \<Rightarrow> [] | Some x \<Rightarrow> [x]) @ seen_updates l es"
  "seen_updates l (es @ es') = seen_updates l es @ seen_updates l es'"
  "controller_callbacks [] = []"
  "controller_callbacks (e # es) =
     (if is_controller_callback e then [e] else []) @ controller_callbacks es"
  "controller_callbacks (es @ es') = controller_callbacks es @ controller_callbacks es'"
  by (auto simp: seen_edges_def seen_updates_def controller_callbacks_def List.map_filter_def
      split: option.splits)

lemma seen_controller_events [effect_simps]:
  "seen_edges l (onConnectionChanged c b) = []"
  "seen_edges l (onSignalStatusChanged c s) = []"
  "seen_edges l (onVideoModeChanged c r) = []"
  "seen_updates l (onConnectionChanged c b) = []"
  "seen_updates l (onSignalStatusChanged c s) = []"
  "seen_updates l (onVideoModeChanged c r) = []"
  "controller_callbacks (onConnectionChanged c b) = onConnectionChanged c b"
  "controller_callbacks (onSignalStatusChanged c s) = onSignalStatusChanged c s"
  "controller_callbacks (onVideoModeChanged c r) = onVideoModeChanged c r"
  by (auto simp: onConnectionChanged_def onSignalStatusChanged_def onVideoModeChanged_def
      effect_simps split: option.splits)

section \<open>The contract of a broadcast\<close>

text \<open>
  Both event dispatchers broadcast one event to a snapshot of listeners. The contract the
  port relies on: the callbacks come first, one per non-null entry in snapshot order,
  and whatever follows (flushes, delivery barriers) is no callback.
\<close>

locale broadcast =
  fixes send :: "'e \<Rightarrow> iface \<Rightarrow> effect"
    and run :: "iface sp list \<Rightarrow> 'e \<Rightarrow> effect list"
  assumes callbacks_first: "\<exists>tail. run ls e = map (send e) (List.map_filter id ls) @ tail \<and>
                                   (\<forall>x \<in> set tail. \<not> is_callback x)"
    and send_callback: "is_callback (send e l)"
begin

lemma filter_callbacks: "filter is_callback (run ls e) = map (send e) (List.map_filter id ls)"
proof -
  obtain tail where "run ls e = map (send e) (List.map_filter id ls) @ tail"
    and "\<forall>x \<in> set tail. \<not> is_callback x"
    using callbacks_first by blast
  then show ?thesis
    by (simp add: send_callback filter_empty_conv)
qed

lemma projection:
  assumes silent: "\<And>x. \<not> is_callback x \<Longrightarrow> view x = None"
  shows "List.map_filter view (run ls e) =
    List.map_filter (\<lambda>l. view (send e l)) (List.map_filter id ls)"
proof -
  have "List.map_filter view xs = List.map_filter view (filter is_callback xs)" for xs
    by (induction xs) (auto simp: List.map_filter_def silent)
  then have "List.map_filter view (run ls e) =
      List.map_filter view (map (send e) (List.map_filter id ls))"
    by (metis filter_callbacks)
  then show ?thesis
    by (simp add: List.map_filter_def filter_map comp_def)
qed

lemma no_event_without_listener:
  "List.map_filter id ls = [] \<Longrightarrow> filter is_callback (run ls e) = []"
  by (simp add: filter_callbacks)

end

lemma stateCallbacks_eq:
  "stateCallbacks env old new ls =
     (map (\<lambda>l. StateChanged l old new) (List.map_filter id ls),
      filter (\<lambda>l. callbackOk env (StateChanged l old new)) (List.map_filter id ls))"
  by (induction env old new ls rule: stateCallbacks.induct)
    (auto simp: List.map_filter_def Let_def)

lemma propertyCallbacks_eq:
  "propertyCallbacks env k v ls =
     (map (\<lambda>l. PropertyChanged l k v) (List.map_filter id ls),
      \<exists>l \<in> set (List.map_filter id ls). callbackOk env (PropertyChanged l k v))"
  by (induction env k v ls rule: propertyCallbacks.induct)
    (auto simp: List.map_filter_def Let_def)

lemma wait_no_callback: "x \<in> set (waitForListenerDelivery env l) \<Longrightarrow> \<not> is_callback x"
  by (auto simp: waitForListenerDelivery_def split: option.splits)

interpretation state_bc: broadcast
  "\<lambda>(old, new) l. StateChanged l old new"
  "\<lambda>ls (old, new). onStateChanged env ls old new" for env
  by unfold_locales
    (auto simp: onStateChanged_def stateCallbacks_eq dest: wait_no_callback split: prod.splits)

interpretation property_bc: broadcast
  "\<lambda>(k, v) l. PropertyChanged l k v"
  "\<lambda>ls (k, v). onPropertyChanged env ls k v" for env
  by unfold_locales (auto simp: onPropertyChanged_def propertyCallbacks_eq split: prod.splits)

lemma map_filter_self:
  "List.map_filter (\<lambda>l'. if l' = l then Some x else None) xs = replicate (count_list xs l) x"
  by (induction xs) (auto simp: List.map_filter_def)

lemma count_list_map_filter_id: "count_list (List.map_filter id ls) l = count_list ls (Some l)"
  by (induction ls) (auto simp: List.map_filter_def)

lemma silent_views:
  "\<not> is_callback x \<Longrightarrow> state_edge_of l x = None"
  "\<not> is_callback x \<Longrightarrow> property_update_of l x = None"
  by (cases x; simp)+

lemma seen_edges_state [effect_simps]:
  "seen_edges l (onStateChanged env ls old new) = replicate (count_list ls (Some l)) (old, new)"
  using state_bc.projection [where view = "state_edge_of l" and ls = ls and e = "(old, new)"
      and env = env]
  by (simp add: seen_edges_def silent_views map_filter_self count_list_map_filter_id)

lemma seen_updates_property [effect_simps]:
  "seen_updates l (onPropertyChanged env ls k v) = replicate (count_list ls (Some l)) (k, v)"
  using property_bc.projection [where view = "property_update_of l" and ls = ls and e = "(k, v)"
      and env = env]
  by (simp add: seen_updates_def silent_views map_filter_self count_list_map_filter_id)

lemma map_filter_None: "(\<And>x. x \<in> set xs \<Longrightarrow> f x = None) \<Longrightarrow> List.map_filter f xs = []"
  by (auto simp: List.map_filter_def filter_empty_conv)

lemma seen_edges_property [effect_simps]: "seen_edges l (onPropertyChanged env ls k v) = []"
  by (auto simp: seen_edges_def onPropertyChanged_def propertyCallbacks_eq intro!: map_filter_None)

lemma seen_updates_state [effect_simps]: "seen_updates l (onStateChanged env ls old new) = []"
  by (auto simp: seen_updates_def onStateChanged_def stateCallbacks_eq waitForListenerDelivery_def
      intro!: map_filter_None split: option.splits)

lemma controller_callbacks_broadcast [effect_simps]:
  "controller_callbacks (onStateChanged env ls old new) = []"
  "controller_callbacks (onPropertyChanged env ls k v) = []"
  by (auto simp: controller_callbacks_def filter_empty_conv onStateChanged_def stateCallbacks_eq
      onPropertyChanged_def propertyCallbacks_eq waitForListenerDelivery_def split: option.splits)

section \<open>The delivery barrier\<close>

text \<open>
  A state event is fully issued to every listener before any barrier runs, and the
  barrier (one flush, then one ping per listener that accepted the event and has a
  Binder node) is exactly what follows.
\<close>

lemma onStateChanged_eq:
  "onStateChanged env ls old new =
     (let targets = List.map_filter id ls;
          accepted = filter (\<lambda>l. callbackOk env (StateChanged l old new)) targets
      in map (\<lambda>l. StateChanged l old new) targets @
         (if accepted = [] then []
          else FlushCommands # map PingBinder (List.map_filter (asBinder env) accepted)))"
proof -
  have "concat (map (waitForListenerDelivery env) xs) =
      map PingBinder (List.map_filter (asBinder env) xs)" for xs
    by (induction xs) (auto simp: waitForListenerDelivery_def List.map_filter_def split: option.splits)
  then show ?thesis
    by (simp add: onStateChanged_def stateCallbacks_eq Let_def)
qed

end
