(* ===== verification/Helper.thy ===== *)
theory Helper
  imports Aidl_Types
begin

text \<open>
  \<open>vcomponent_CompositeInputHelper.cpp\<close> and the configuration structures of
  \<open>vcomponent_CompositeInputHfpConfigUtils.h\<close>: whitespace trimming, the token tables
  that turn profile and control-plane strings into AIDL enumerators, the construction of
  a video resolution, and the mapping of profile entries to AIDL parcelables.
\<close>

section \<open>HFP configuration structures\<close>

record property_metadata_config =
  mc_key :: string
  mc_type :: string
  mc_readOnly :: bool
  mc_isMetric :: bool
  mc_description :: string

record port_config =
  cp_id :: int
  cp_name :: string
  cp_description :: string
  cp_supportedProperties :: "string list"
  cp_propertyMetadata :: "property_metadata_config list"

record hfp_config =
  hc_interfaceVersion :: string
  hc_ports :: "port_config list"
  hc_halVersion :: string
  hc_maxPorts :: int
  hc_maximumConcurrentStartedPorts :: int
  hc_supportedProperties :: "string list"
  hc_propertyMetadata :: "property_metadata_config list"
  hc_macrovisionDetectionSupported :: bool

text \<open>The default member initialisers, i.e. the value of \<open>T{}\<close>.\<close>

definition default_metadata_config :: property_metadata_config where
  "default_metadata_config = \<lparr>mc_key = [], mc_type = [], mc_readOnly = True, mc_isMetric = False,
     mc_description = []\<rparr>"

definition default_port_config :: port_config where
  "default_port_config = \<lparr>cp_id = -1, cp_name = [], cp_description = [],
     cp_supportedProperties = [], cp_propertyMetadata = []\<rparr>"

definition default_hfp_config :: hfp_config where
  "default_hfp_config = \<lparr>hc_interfaceVersion = [], hc_ports = [], hc_halVersion = [],
     hc_maxPorts = 0, hc_maximumConcurrentStartedPorts = 1, hc_supportedProperties = [],
     hc_propertyMetadata = [], hc_macrovisionDetectionSupported = False\<rparr>"

section \<open>Trimming\<close>

text \<open>\<open>std::isspace\<close> on an \<open>unsigned char\<close> in the C locale.\<close>

definition isspace :: "char \<Rightarrow> bool" where
  "isspace c \<longleftrightarrow> c \<in> {CHR 0x20, CHR 0x09, CHR 0x0A, CHR 0x0B, CHR 0x0C, CHR 0x0D}"

function trim_start :: "string \<Rightarrow> nat \<Rightarrow> nat" where
  "trim_start input startIndex =
     (if startIndex < length input \<and> isspace (input ! startIndex)
      then trim_start input (Suc startIndex) else startIndex)"
  by pat_completeness auto
termination
  by (relation "measure (\<lambda>(input, startIndex). length input - startIndex)") auto

fun trim_end :: "string \<Rightarrow> nat \<Rightarrow> nat \<Rightarrow> nat" where
  "trim_end input startIndex 0 = 0"
| "trim_end input startIndex (Suc n) =
     (if startIndex < Suc n \<and> isspace (input ! n)
      then trim_end input startIndex n else Suc n)"

declare trim_start.simps [simp del]

definition trim :: "string \<Rightarrow> string" where
  "trim input =
     (let startIndex = trim_start input 0;
          endIndex = trim_end input startIndex (length input)
      in take (endIndex - startIndex) (drop startIndex input))"

lemma trim_start_eq:
  "i \<le> length input \<Longrightarrow>
   trim_start input i = i + length (takeWhile isspace (drop i input))"
proof (induction input i rule: trim_start.induct)
  case (1 input i)
  show ?case
  proof (cases "i < length input")
    case True
    then have "drop i input = input ! i # drop (Suc i) input"
      by (simp add: Cons_nth_drop_Suc)
    with 1 True show ?thesis
      by (simp add: trim_start.simps [of input i])
  next
    case False
    then show ?thesis by (simp add: trim_start.simps [of input i])
  qed
qed

lemma trim_end_drop:
  "s \<le> e \<Longrightarrow> e \<le> length input \<Longrightarrow>
   take (trim_end input s e - s) (drop s input) =
   rev (dropWhile isspace (rev (take (e - s) (drop s input))))"
proof (induction e)
  case 0
  then show ?case by simp
next
  case (Suc n)
  show ?case
  proof (cases "s < Suc n")
    case True
    then have "take (Suc n - s) (drop s input) = take (n - s) (drop s input) @ [input ! n]"
      using Suc.prems by (simp add: Suc_diff_le take_Suc_conv_app_nth)
    with True Suc show ?thesis by auto
  next
    case False
    with Suc.prems show ?thesis by simp
  qed
qed

lemma trim_eq: "trim input = rev (dropWhile isspace (rev (dropWhile isspace input)))"
proof -
  let ?s = "trim_start input 0"
  have s: "?s = length (takeWhile isspace input)"
    by (simp add: trim_start_eq)
  then have "?s \<le> length input"
    by (simp add: length_takeWhile_le)
  moreover have "drop ?s input = dropWhile isspace input"
    by (simp add: s dropWhile_eq_drop)
  moreover have "take (length input - ?s) (drop ?s input) = drop ?s input"
    by simp
  ultimately show ?thesis
    using trim_end_drop [of ?s "length input" input]
    by (simp only: trim_def Let_def order_refl)
qed

lemma trim_ends:
  assumes "trim s \<noteq> []"
  shows "\<not> isspace (hd (trim s))" and "\<not> isspace (last (trim s))"
proof -
  let ?d = "dropWhile isspace s"
  have split: "rev ?d = takeWhile isspace (rev ?d) @ dropWhile isspace (rev ?d)"
    by simp
  then have d: "?d = trim s @ rev (takeWhile isspace (rev ?d))"
    unfolding trim_eq by (metis rev_append rev_rev_ident)
  from assms show "\<not> isspace (last (trim s))"
    by (simp add: trim_eq last_rev hd_dropWhile)
  from assms d have "hd (trim s) = hd ?d" and "?d \<noteq> []"
    by (metis hd_append2, metis append_is_Nil_conv)
  then show "\<not> isspace (hd (trim s))"
    by (simp add: hd_dropWhile)
qed

lemma trim_no_space:
  assumes "s = [] \<or> \<not> isspace (hd s) \<and> \<not> isspace (last s)"
  shows "trim s = s"
proof -
  from assms have "dropWhile isspace s = s" and "dropWhile isspace (rev s) = rev s"
    by (auto simp: dropWhile_eq_self_iff hd_rev)
  then show ?thesis by (simp add: trim_eq)
qed

lemma trim_idem [simp]: "trim (trim s) = trim s"
  using trim_ends [of s] by (intro trim_no_space) auto

section \<open>Reading a file\<close>

text \<open>
  The file system answers an attempt to open a path with the outcomes of the successive reads,
  or refuses it. \<open>operator<<(streambuf)\<close> copies blocks until the end or a failing read, which it
  swallows: what was copied so far is the contents.
\<close>

datatype read_outcome = Block string | ReadFailure

type_synonym file_system = "string \<Rightarrow> read_outcome list option"

fun copyStream :: "read_outcome list \<Rightarrow> string" where
  "copyStream [] = []"
| "copyStream (Block b # rs) = b @ copyStream rs"
| "copyStream (ReadFailure # rs) = []"

definition readFileToString :: "file_system \<Rightarrow> string \<Rightarrow> string option" where
  "readFileToString files path =
     (case files path of
        None \<Rightarrow> None
      | Some inputFile \<Rightarrow> Some (copyStream inputFile))"

section \<open>Token tables\<close>

text \<open>
  Every \<open>...FromString\<close> function trims its token and walks a constant table; it
  returns false on a null output and leaves the output alone when no entry matches.
\<close>

fun lookupToken :: "(string \<times> 'a) list \<Rightarrow> string \<Rightarrow> 'a option" where
  "lookupToken [] normalized = None"
| "lookupToken ((token, v) # entries) normalized =
     (if normalized = token then Some v else lookupToken entries normalized)"

definition fromString :: "(string \<times> 'a) list \<Rightarrow> string \<Rightarrow> 'a out \<Rightarrow> bool \<times> 'a out" where
  "fromString table token outValue =
     (case outValue of
        None \<Rightarrow> (False, None)
      | Some old \<Rightarrow>
          (case lookupToken table (trim token) of
             Some v \<Rightarrow> (True, Some v)
           | None \<Rightarrow> (False, Some old)))"

definition parsed :: "bool \<times> 'a out \<Rightarrow> 'a option" where
  "parsed r = (if fst r then snd r else None)"

definition kPortPropertyTokens :: "(string \<times> port_property) list" where
  "kPortPropertyTokens =
    [(''SIGNAL_STRENGTH'', SIGNAL_STRENGTH),
     (''SIGNAL_QUALITY'', SIGNAL_QUALITY),
     (''METRIC_SIGNAL_LOCK_TIME'', METRIC_SIGNAL_LOCK_TIME),
     (''METRIC_SIGNAL_DROPS'', METRIC_SIGNAL_DROPS),
     (''METRIC_UPTIME'', METRIC_UPTIME),
     (''METRIC_SIGNAL_LOCK_COUNT'', METRIC_SIGNAL_LOCK_COUNT),
     (''METRIC_LAST_SIGNAL_LOCK_TIME'', METRIC_LAST_SIGNAL_LOCK_TIME),
     (''METRIC_LAST_RESET_TIMESTAMP'', METRIC_LAST_RESET_TIMESTAMP)]"

definition kSignalStatusTokens :: "(string \<times> signal_status) list" where
  "kSignalStatusTokens =
    [(''NO_SIGNAL'', NO_SIGNAL), (''UNSTABLE'', UNSTABLE),
     (''NOT_SUPPORTED'', NOT_SUPPORTED), (''STABLE'', STABLE)]"

datatype helper_command =
  SET_CONNECTION | SET_SIGNAL_STATUS | HELPER_SET_PROPERTY | SET_VIDEO_MODE | HELPER_CLEAR_VIDEO_MODE

definition kUtCommandTokens :: "(string \<times> helper_command) list" where
  "kUtCommandTokens =
    [(''setConnection'', SET_CONNECTION),
     (''setSignalStatus'', SET_SIGNAL_STATUS),
     (''setProperty'', HELPER_SET_PROPERTY),
     (''setVideoMode'', SET_VIDEO_MODE),
     (''clearVideoMode'', HELPER_CLEAR_VIDEO_MODE),
     (''connection_status'', SET_CONNECTION),
     (''signal_status'', SET_SIGNAL_STATUS),
     (''set_property'', HELPER_SET_PROPERTY),
     (''property_changed'', HELPER_SET_PROPERTY),
     (''video_mode'', SET_VIDEO_MODE),
     (''clear_video_mode'', HELPER_CLEAR_VIDEO_MODE)]"

definition kPropertyTypeTokens :: "(string \<times> property_type) list" where
  "kPropertyTypeTokens =
    [(''BOOLEAN'', BOOLEAN), (''INTEGER'', INTEGER), (''LONG'', LONG),
     (''FLOAT'', FLOAT), (''DOUBLE'', DOUBLE), (''STRING'', STRING)]"

definition portPropertyFromString :: "string \<Rightarrow> port_property out \<Rightarrow> bool \<times> port_property out" where
  "portPropertyFromString = fromString kPortPropertyTokens"

definition signalStatusFromString :: "string \<Rightarrow> signal_status out \<Rightarrow> bool \<times> signal_status out" where
  "signalStatusFromString = fromString kSignalStatusTokens"

definition utCommandFromString :: "string \<Rightarrow> helper_command out \<Rightarrow> bool \<times> helper_command out" where
  "utCommandFromString = fromString kUtCommandTokens"

definition propertyTypeFromString :: "string \<Rightarrow> property_type out \<Rightarrow> bool \<times> property_type out" where
  "propertyTypeFromString = fromString kPropertyTypeTokens"

text \<open>
  How the callers use them: a local variable, value-initialised, as the output, read only
  when the function returned true.
\<close>

definition portProperty_of :: "string \<Rightarrow> port_property option" where
  "portProperty_of token = parsed (portPropertyFromString token (Some (OTHER_PROPERTY 0)))"

definition signalStatus_of :: "string \<Rightarrow> signal_status option" where
  "signalStatus_of token = parsed (signalStatusFromString token (Some (OTHER_SIGNAL 0)))"

definition propertyType_of :: "string \<Rightarrow> property_type option" where
  "propertyType_of token = parsed (propertyTypeFromString token (Some (OTHER_TYPE 0)))"

text \<open>
  The interface of such a table. It relies on the tokens being distinct and free of
  surrounding whitespace; then a lookup is the finite map the table lists, up to padding.
\<close>

locale token_table =
  fixes table :: "(string \<times> 'a) list"
  assumes distinct_tokens: "distinct (map fst table)"
    and trimmed_tokens: "t \<in> fst ` set table \<Longrightarrow> trim t = t"
begin

lemma lookup_map_of: "lookupToken table t = map_of table t"
  by (induction table) (auto)

lemma fromString_hit:
  assumes "(t, v) \<in> set table" and "trim s = t"
  shows "fromString table s (Some old) = (True, Some v)"
proof -
  have "map_of table t = Some v"
    using assms(1) distinct_tokens by (simp add: map_of_eq_Some_iff)
  then show ?thesis
    using assms(2) by (simp add: fromString_def lookup_map_of)
qed

lemma fromString_own_token:
  "(t, v) \<in> set table \<Longrightarrow> fromString table t (Some old) = (True, Some v)"
  using trimmed_tokens [of t] by (intro fromString_hit) (force simp: image_iff)+

lemma fromString_iff:
  "fromString table s (Some old) = (True, Some v) \<longleftrightarrow> (trim s, v) \<in> set table"
  using map_of_eq_Some_iff [OF distinct_tokens, of "trim s" v]
  by (auto simp: fromString_def lookup_map_of split: option.splits)

lemma fromString_miss:
  "fst (fromString table s (Some old)) \<longleftrightarrow> trim s \<in> fst ` set table"
  by (auto simp: fromString_def lookup_map_of map_of_eq_None_iff split: option.splits
      dest: map_of_SomeD) (force dest: map_of_SomeD)

lemma fromString_null: "fromString table s None = (False, None)"
  by (simp add: fromString_def)

lemma fromString_untouched:
  "\<not> fst (fromString table s (Some old)) \<Longrightarrow> snd (fromString table s (Some old)) = Some old"
  by (auto simp: fromString_def split: option.splits)

lemma parsed_fromString: "parsed (fromString table s (Some old)) = map_of table (trim s)"
  by (auto simp: parsed_def fromString_def lookup_map_of split: option.splits)

end

lemmas token_table_defs =
  kPortPropertyTokens_def kSignalStatusTokens_def kUtCommandTokens_def kPropertyTypeTokens_def

interpretation pp: token_table kPortPropertyTokens
  by unfold_locales (auto simp: token_table_defs isspace_def intro!: trim_no_space)

interpretation ss: token_table kSignalStatusTokens
  by unfold_locales (auto simp: token_table_defs isspace_def intro!: trim_no_space)

interpretation uc: token_table kUtCommandTokens
  by unfold_locales (auto simp: token_table_defs isspace_def intro!: trim_no_space)

interpretation pt: token_table kPropertyTypeTokens
  by unfold_locales (auto simp: token_table_defs isspace_def intro!: trim_no_space)

lemma portProperty_of_eq: "portProperty_of t = map_of kPortPropertyTokens (trim t)"
  by (simp add: portProperty_of_def portPropertyFromString_def pp.parsed_fromString)

lemma signalStatus_of_eq: "signalStatus_of t = map_of kSignalStatusTokens (trim t)"
  by (simp add: signalStatus_of_def signalStatusFromString_def ss.parsed_fromString)

lemma propertyType_of_eq: "propertyType_of t = map_of kPropertyTypeTokens (trim t)"
  by (simp add: propertyType_of_def propertyTypeFromString_def pt.parsed_fromString)

section \<open>Video resolutions\<close>

definition makeVideoResolution ::
  "int \<Rightarrow> int \<Rightarrow> bool \<Rightarrow> cfloat \<Rightarrow> video_resolution out \<Rightarrow> bool \<times> video_resolution out" where
  "makeVideoResolution pixelWidth pixelHeight interlaced frameRateInHz outValue =
     (case outValue of
        None \<Rightarrow> (False, None)
      | Some old \<Rightarrow>
          if pixelWidth \<le> 0 \<or> pixelHeight \<le> 0 \<or> float_le_zero frameRateInHz
          then (False, Some old)
          else (True, Some (old\<lparr>vr_pixelWidth := pixelWidth, vr_pixelHeight := pixelHeight,
                                vr_interlaced := interlaced, vr_frameRateInHz := frameRateInHz\<rparr>)))"

definition default_resolution :: video_resolution where
  "default_resolution = \<lparr>vr_pixelWidth = 0, vr_pixelHeight = 0, vr_interlaced = False,
     vr_frameRateInHz = FFin 0 0\<rparr>"

section \<open>From profile entries to AIDL parcelables\<close>

fun toPortProperties :: "string list \<Rightarrow> port_property list" where
  "toPortProperties [] = []"
| "toPortProperties (token # tokens) =
     (case portProperty_of token of
        Some v \<Rightarrow> v # toPortProperties tokens
      | None \<Rightarrow> toPortProperties tokens)"

fun toPropertyMetadata :: "property_metadata_config list \<Rightarrow> property_metadata list" where
  "toPropertyMetadata [] = []"
| "toPropertyMetadata (entry # entries) =
     (case portProperty_of (mc_key entry) of
        None \<Rightarrow> toPropertyMetadata entries
      | Some k \<Rightarrow>
          (case propertyType_of (mc_type entry) of
             None \<Rightarrow> toPropertyMetadata entries
           | Some t \<Rightarrow>
               \<lparr>md_key = k, md_type = t, md_readOnly = mc_readOnly entry,
                md_isMetric = mc_isMetric entry, md_description = mc_description entry\<rparr>
               # toPropertyMetadata entries))"

definition toNullablePropertyMetadata ::
  "property_metadata_config list \<Rightarrow> property_metadata option list option" where
  "toNullablePropertyMetadata entries =
     (if entries = [] then None else Some (map Some (toPropertyMetadata entries)))"

lemma toPortProperties_eq: "toPortProperties tokens = List.map_filter portProperty_of tokens"
  by (induction tokens) (auto simp: List.map_filter_def split: option.splits)

lemma toPortProperties_all:
  "(\<And>t. t \<in> set tokens \<Longrightarrow> portProperty_of t \<noteq> None) \<Longrightarrow>
   toPortProperties tokens = map (the \<circ> portProperty_of) tokens"
  by (induction tokens) (auto split: option.splits)

lemma toPropertyMetadata_keys:
  "\<forall>e \<in> set entries. portProperty_of (mc_key e) \<noteq> None \<and> propertyType_of (mc_type e) \<noteq> None \<Longrightarrow>
   map md_key (toPropertyMetadata entries) = toPortProperties (map mc_key entries)"
  by (induction entries) (auto split: option.splits)

lemma toPropertyMetadata_drops:
  "\<forall>e \<in> set entries. portProperty_of (mc_key e) = None \<or> propertyType_of (mc_type e) = None \<Longrightarrow>
   toPropertyMetadata entries = []"
  by (induction entries) (auto split: option.splits)

section \<open>Properties\<close>

text \<open>
  Trimming removes exactly a whitespace prefix and a whitespace suffix, and what is
  left neither starts nor ends with whitespace.
\<close>

lemma trim_spec:
  "\<exists>w1 w2. s = w1 @ trim s @ w2 \<and> list_all isspace w1 \<and> list_all isspace w2 \<and>
     (trim s \<noteq> [] \<longrightarrow> \<not> isspace (hd (trim s)) \<and> \<not> isspace (last (trim s)))"
proof -
  let ?d = "dropWhile isspace s"
  let ?w1 = "takeWhile isspace s" and ?w2 = "rev (takeWhile isspace (rev ?d))"
  have "rev ?d = takeWhile isspace (rev ?d) @ dropWhile isspace (rev ?d)" by simp
  then have "?d = trim s @ ?w2"
    unfolding trim_eq by (metis rev_append rev_rev_ident)
  then have "s = ?w1 @ trim s @ ?w2"
    by (metis takeWhile_dropWhile_id)
  moreover have "list_all isspace ?w1" and "list_all isspace ?w2"
    by (auto simp: list_all_iff dest: set_takeWhileD)
  ultimately show ?thesis
    using trim_ends [of s] by blast
qed

text \<open>
  A property token is recognised exactly when, after trimming, it is in the table; the
  output then holds the listed enumerator, otherwise it is left as it was; and every
  property that the port accepts has a token.
\<close>

lemma portPropertyFromString_spec:
  "portPropertyFromString token (Some old) =
     (case map_of kPortPropertyTokens (trim token) of
        Some v \<Rightarrow> (True, Some v) | None \<Rightarrow> (False, Some old)) \<and>
   portPropertyFromString token None = (False, None) \<and>
   snd ` set kPortPropertyTokens = UNIV - range OTHER_PROPERTY"
proof -
  have "snd ` set kPortPropertyTokens = UNIV - range OTHER_PROPERTY"
    unfolding kPortPropertyTokens_def
    by (auto simp: image_iff) (metis port_property.exhaust rangeI)
  then show ?thesis
    by (simp add: portPropertyFromString_def fromString_def pp.lookup_map_of)
qed

text \<open>
  A video resolution is produced exactly for positive dimensions and a frame rate that
  does not compare \<open>\<le> 0\<close>, and then carries the given values; otherwise the output stays
  untouched. A frame rate that is not a number passes this test.
\<close>

lemma makeVideoResolution_spec:
  "makeVideoResolution w h i r (Some old) =
     (if 0 < w \<and> 0 < h \<and> \<not> float_le_zero r
      then (True, Some \<lparr>vr_pixelWidth = w, vr_pixelHeight = h, vr_interlaced = i, vr_frameRateInHz = r\<rparr>)
      else (False, Some old)) \<and>
   makeVideoResolution w h i r None = (False, None) \<and>
   fst (makeVideoResolution 720 576 i FNaN (Some old))"
  by (cases old) (auto simp: makeVideoResolution_def)

text \<open>
  The metadata field of a capability parcelable is null exactly for a profile without
  entries. A profile whose entries all fail to map yields an engaged empty array, where the
  header promises null.
\<close>

lemma toNullablePropertyMetadata_null_iff:
  "(toNullablePropertyMetadata entries = None \<longleftrightarrow> entries = []) \<and>
   toNullablePropertyMetadata [default_metadata_config\<lparr>mc_key := ''UNKNOWN''\<rparr>] = Some []"
proof -
  have "portProperty_of ''UNKNOWN'' = None"
    by (simp add: portProperty_of_eq trim_no_space isspace_def kPortPropertyTokens_def)
  then show ?thesis
    by (simp add: toNullablePropertyMetadata_def default_metadata_config_def)
qed

end
