(* ===== verification/Port_State.thy ===== *)
theory Port_State
  imports Event_Dispatch Helper
begin

text \<open>
  The state of \<open>CompositeInputPort\<close> (\<open>vcomponent_CompositeInputPort.h/.cpp\<close>), its
  construction and configuration, the read-only queries, the observer registry, and the
  helpers that every lifecycle operation uses: \<open>setStateLocked\<close>,
  \<open>resetSessionStateLocked\<close> and the process-wide count of started ports. Each definition
  is one critical section of the code: the body that runs under \<open>m_mutex\<close> or
  \<open>g_startedMutex\<close>.
\<close>

section \<open>The process-wide started-port count\<close>

record globals =
  g_startedPorts :: int
  g_maxStartedPorts :: int

definition initial_globals :: globals where
  "initial_globals = \<lparr>g_startedPorts = 0, g_maxStartedPorts = 1\<rparr>"

definition setMaxConcurrentStartedPorts :: "int \<Rightarrow> globals \<Rightarrow> globals" where
  "setMaxConcurrentStartedPorts maxStartedPorts g =
     g\<lparr>g_maxStartedPorts := (if maxStartedPorts \<ge> 1 then maxStartedPorts else 1)\<rparr>"

text \<open>
  The section at the head of \<open>startFromController\<close> (\<open>None\<close>: the limit is reached), and
  the guarded decrement that \<open>start\<close>, \<open>stop\<close> and the death cleanup share.
\<close>

definition acquireStartedSlot :: "globals \<Rightarrow> globals option" where
  "acquireStartedSlot g =
     (if g_startedPorts g \<ge> g_maxStartedPorts g then None
      else Some (g\<lparr>g_startedPorts := g_startedPorts g + 1\<rparr>))"

definition releaseStartedSlot :: "globals \<Rightarrow> globals" where
  "releaseStartedSlot g =
     (if g_startedPorts g > 0 then g\<lparr>g_startedPorts := g_startedPorts g - 1\<rparr> else g)"

text \<open>
  What the lifecycle operations rely on: a pool of slots of a fixed capacity. A slot is
  granted exactly while fewer than \<open>limit\<close> are used, and releasing undoes acquiring.
\<close>

locale slot_pool =
  fixes used :: "'g \<Rightarrow> int"
    and limit :: "'g \<Rightarrow> int"
    and acquire :: "'g \<Rightarrow> 'g option"
    and release :: "'g \<Rightarrow> 'g"
  assumes acquire_iff: "acquire g = None \<longleftrightarrow> limit g \<le> used g"
    and acquire_used: "acquire g = Some g' \<Longrightarrow> used g' = used g + 1"
    and acquire_limit: "acquire g = Some g' \<Longrightarrow> limit g' = limit g"
    and release_used: "0 < used g \<Longrightarrow> used (release g) = used g - 1"
    and release_empty: "used g \<le> 0 \<Longrightarrow> used (release g) = used g"
    and release_limit: "limit (release g) = limit g"
begin

lemma acquire_within: "acquire g = Some g' \<Longrightarrow> used g' \<le> limit g'"
  using acquire_iff [of g] by (auto simp: acquire_used acquire_limit)

lemma release_within: "used g \<le> limit g \<Longrightarrow> used (release g) \<le> limit (release g)"
  by (cases "0 < used g") (auto simp: release_used release_empty release_limit)

lemma release_acquire: "acquire g = Some g' \<Longrightarrow> 0 \<le> used g \<Longrightarrow> used (release g') = used g"
  by (simp add: release_used acquire_used)

lemma acquire_after_release:
  "0 < used g \<Longrightarrow> used g \<le> limit g \<Longrightarrow> acquire (release g) \<noteq> None"
  by (auto simp: acquire_iff release_used release_limit)

lemma used_nonneg: "0 \<le> used g \<Longrightarrow> 0 \<le> used (release g)"
  by (cases "0 < used g") (auto simp: release_used release_empty)

end

interpretation started: slot_pool g_startedPorts g_maxStartedPorts acquireStartedSlot releaseStartedSlot
  by unfold_locales (auto simp: acquireStartedSlot_def releaseStartedSlot_def split: if_splits)

lemma release_equation:
  "0 < g_startedPorts g \<Longrightarrow> releaseStartedSlot g = g\<lparr>g_startedPorts := g_startedPorts g - 1\<rparr>"
  by (simp add: releaseStartedSlot_def)

section \<open>Property values\<close>

definition makeInt32 :: "int \<Rightarrow> property_value" where
  "makeInt32 v = PropertyValue (Some (IntValue v))"

definition makeInt64 :: "int \<Rightarrow> property_value" where
  "makeInt64 v = PropertyValue (Some (LongValue v))"

definition makeNullPropertyValue :: property_value where
  "makeNullPropertyValue = PropertyValue None"

fun signalStrengthDbmFor :: "signal_status \<Rightarrow> int" where
  "signalStrengthDbmFor STABLE = -20"
| "signalStrengthDbmFor UNSTABLE = -50"
| "signalStrengthDbmFor NOT_SUPPORTED = 0"
| "signalStrengthDbmFor _ = 0"

fun signalQualityFor :: "signal_status \<Rightarrow> int" where
  "signalQualityFor STABLE = 85"
| "signalQualityFor UNSTABLE = 20"
| "signalQualityFor NOT_SUPPORTED = 5"
| "signalQualityFor NO_SIGNAL = 0"
| "signalQualityFor _ = 0"

section \<open>The port\<close>

text \<open>
  The members of the class, in declaration order. The property cache is keyed by the
  enumerator itself (the code casts it to its integer value, which is injective). A death
  recipient object is identified by the session epoch it was constructed with.
\<close>

record port =
  m_portId :: int
  m_name :: string
  m_description :: string
  m_capabilities :: port_capabilities
  m_supportedProperties :: "port_property list"
  m_state :: lifecycle
  m_cachedStatus :: port_status
  m_cachedProperties :: "port_property \<rightharpoonup> property_value"
  m_controller :: "controller sp"
  m_controllerListener :: "iface sp"
  m_eventListeners :: "iface sp list"
  m_controllerDeathRecipient :: "uint64 sp"
  m_sessionEpoch :: uint64
  m_deathCleanupPending :: bool
  m_startTsMs :: int
  m_lastResetTsMs :: int
  m_signalLockTimeMs :: int
  m_lastSignalLockTimeMs :: int
  m_signalDrops :: int
  m_signalLockCount :: int

definition initial_properties :: "port_property \<rightharpoonup> property_value" where
  "initial_properties =
     [SIGNAL_STRENGTH \<mapsto> makeInt64 0,
      SIGNAL_QUALITY \<mapsto> makeInt32 0,
      METRIC_SIGNAL_LOCK_TIME \<mapsto> makeInt64 0,
      METRIC_SIGNAL_DROPS \<mapsto> makeInt64 0,
      METRIC_UPTIME \<mapsto> makeInt64 0,
      METRIC_SIGNAL_LOCK_COUNT \<mapsto> makeInt64 0,
      METRIC_LAST_SIGNAL_LOCK_TIME \<mapsto> makeInt64 0,
      METRIC_LAST_RESET_TIMESTAMP \<mapsto> makeInt64 0]"

definition CompositeInputPort :: "int \<Rightarrow> port" where
  "CompositeInputPort portId =
     \<lparr>m_portId = portId, m_name = [], m_description = [],
      m_capabilities = \<lparr>pc_supportedProperties = [], pc_propertyMetadata = None\<rparr>,
      m_supportedProperties = [],
      m_state = CLOSED,
      m_cachedStatus =
        \<lparr>ps_portId = portId, ps_connected = False, ps_active = False,
         ps_signalStatus = NO_SIGNAL, ps_detectedResolution = None\<rparr>,
      m_cachedProperties = initial_properties,
      m_controller = None, m_controllerListener = None, m_eventListeners = [],
      m_controllerDeathRecipient = None, m_sessionEpoch = 0, m_deathCleanupPending = False,
      m_startTsMs = 0, m_lastResetTsMs = 0, m_signalLockTimeMs = 0,
      m_lastSignalLockTimeMs = 0, m_signalDrops = 0, m_signalLockCount = 0\<rparr>"

definition setPortInfo :: "string \<Rightarrow> string \<Rightarrow> port \<Rightarrow> port" where
  "setPortInfo name description p = p\<lparr>m_name := name, m_description := description\<rparr>"

definition setCapabilities :: "port_capabilities \<Rightarrow> port \<Rightarrow> port" where
  "setCapabilities capabilities p =
     p\<lparr>m_capabilities := capabilities,
       m_supportedProperties := pc_supportedProperties capabilities\<rparr>"

definition supportsPropertyLocked :: "port_property \<Rightarrow> port \<Rightarrow> bool" where
  "supportsPropertyLocked k p = List.member (m_supportedProperties p) k"

definition isPropertySupported :: "port_property \<Rightarrow> port \<Rightarrow> bool" where
  "isPropertySupported k p = supportsPropertyLocked k p"

definition resetHardwareBaselineForBoot :: "port \<Rightarrow> port" where
  "resetHardwareBaselineForBoot p =
     (let p1 = p\<lparr>m_cachedStatus := (m_cachedStatus p)
                   \<lparr>ps_connected := False, ps_signalStatus := NO_SIGNAL,
                    ps_detectedResolution := None\<rparr>\<rparr>;
          p2 = (if supportsPropertyLocked SIGNAL_STRENGTH p1
                then p1\<lparr>m_cachedProperties := (m_cachedProperties p1)(SIGNAL_STRENGTH \<mapsto> makeInt64 0)\<rparr>
                else p1)
      in if supportsPropertyLocked SIGNAL_QUALITY p2
         then p2\<lparr>m_cachedProperties := (m_cachedProperties p2)(SIGNAL_QUALITY \<mapsto> makeInt32 0)\<rparr>
         else p2)"

section \<open>Shared lifecycle helpers\<close>

text \<open>
  \<open>setStateLocked\<close> returns the previous state (the out parameter \<open>oldState\<close>) and the
  snapshot of the listeners to notify.
\<close>

definition setStateLocked :: "lifecycle \<Rightarrow> port \<Rightarrow> port \<times> lifecycle \<times> iface sp list" where
  "setStateLocked nextState p =
     (p\<lparr>m_state := nextState,
        m_cachedStatus := (m_cachedStatus p)\<lparr>ps_active := (nextState = STARTED)\<rparr>\<rparr>,
      m_state p, m_eventListeners p)"

definition kSessionScopedMetrics :: "port_property list" where
  "kSessionScopedMetrics =
     [METRIC_SIGNAL_LOCK_TIME, METRIC_SIGNAL_DROPS, METRIC_UPTIME, METRIC_SIGNAL_LOCK_COUNT,
      METRIC_LAST_SIGNAL_LOCK_TIME, METRIC_LAST_RESET_TIMESTAMP]"

definition zeroMetric ::
  "port_property \<Rightarrow> (port_property \<rightharpoonup> property_value) \<Rightarrow> (port_property \<rightharpoonup> property_value)" where
  "zeroMetric metric cache =
     (case cache metric of
        None \<Rightarrow> cache
      | Some v \<Rightarrow>
          (case pv_value v of
             None \<Rightarrow> cache
           | Some (IntValue _) \<Rightarrow> cache(metric \<mapsto> makeInt32 0)
           | Some (LongValue _) \<Rightarrow> cache(metric \<mapsto> makeInt64 0)
           | Some _ \<Rightarrow> cache))"

definition resetSessionStateLocked :: "port \<Rightarrow> port" where
  "resetSessionStateLocked p =
     p\<lparr>m_startTsMs := 0, m_lastResetTsMs := 0, m_signalLockTimeMs := 0,
       m_lastSignalLockTimeMs := 0, m_signalDrops := 0, m_signalLockCount := 0,
       m_cachedProperties :=
         foldl (\<lambda>cache metric. zeroMetric metric cache) (m_cachedProperties p) kSessionScopedMetrics\<rparr>"

section \<open>Queries\<close>

definition with_out :: "'a out \<Rightarrow> 'a \<Rightarrow> status \<times> 'a out" where
  "with_out ret v =
     (case ret of None \<Rightarrow> (StatusEx EX_NULL_POINTER, None) | Some _ \<Rightarrow> (StatusOk, Some v))"

definition getId :: "int out \<Rightarrow> port \<Rightarrow> status \<times> int out" where
  "getId ret p = with_out ret (m_portId p)"

definition getPortInfo :: "port_info out \<Rightarrow> port \<Rightarrow> status \<times> port_info out" where
  "getPortInfo ret p = with_out ret \<lparr>pi_name = m_name p, pi_description = m_description p\<rparr>"

definition getCapabilities :: "port_capabilities out \<Rightarrow> port \<Rightarrow> status \<times> port_capabilities out" where
  "getCapabilities ret p = with_out ret (m_capabilities p)"

definition getState :: "lifecycle out \<Rightarrow> port \<Rightarrow> status \<times> lifecycle out" where
  "getState ret p = with_out ret (m_state p)"

definition getStatus :: "port_status out \<Rightarrow> port \<Rightarrow> status \<times> port_status out" where
  "getStatus ret p =
     with_out ret
       (if m_state p \<noteq> STARTING \<and> m_state p \<noteq> STARTED
        then (m_cachedStatus p)\<lparr>ps_connected := False, ps_signalStatus := NO_SIGNAL,
                                ps_detectedResolution := None, ps_active := False\<rparr>
        else m_cachedStatus p)"

section \<open>Observer registry\<close>

definition areSameListener :: "binder_env \<Rightarrow> iface sp \<Rightarrow> iface sp \<Rightarrow> bool" where
  "areSameListener env left right =
     (case (left, right) of
        (Some l, Some r) \<Rightarrow> asBinder env l = asBinder env r
      | _ \<Rightarrow> False)"

definition registerEventListener :: "binder_env \<Rightarrow> iface sp \<Rightarrow> port \<Rightarrow> status \<times> port" where
  "registerEventListener env listener p =
     (if listener = None then (StatusEx EX_ILLEGAL_ARGUMENT, p)
      else case List.find (\<lambda>registered. areSameListener env registered listener) (m_eventListeners p) of
             None \<Rightarrow> (StatusOk, p\<lparr>m_eventListeners := m_eventListeners p @ [listener]\<rparr>)
           | Some _ \<Rightarrow> (StatusOk, p))"

text \<open>\<open>std::find_if\<close> followed by \<open>erase\<close> of the iterator found.\<close>

fun eraseFirst :: "('a \<Rightarrow> bool) \<Rightarrow> 'a list \<Rightarrow> 'a list" where
  "eraseFirst Q [] = []"
| "eraseFirst Q (x # xs) = (if Q x then xs else x # eraseFirst Q xs)"

definition unregisterEventListener :: "binder_env \<Rightarrow> iface sp \<Rightarrow> port \<Rightarrow> status \<times> port" where
  "unregisterEventListener env listener p =
     (if listener = None then (StatusEx EX_ILLEGAL_ARGUMENT, p)
      else case List.find (\<lambda>current. areSameListener env current listener) (m_eventListeners p) of
             None \<Rightarrow> (StatusEx EX_ILLEGAL_ARGUMENT, p)
           | Some _ \<Rightarrow>
               (StatusOk, p\<lparr>m_eventListeners :=
                  eraseFirst (\<lambda>current. areSameListener env current listener) (m_eventListeners p)\<rparr>))"

text \<open>
  The contract of a registry: a list of Binder nodes without duplicates, to which a node is
  appended once, and from which exactly it is removed.
\<close>

locale listener_registry =
  fixes node :: "'l \<Rightarrow> 'n"
    and members :: "'r \<Rightarrow> 'n list"
    and reg :: "'l \<Rightarrow> 'r \<Rightarrow> status \<times> 'r"
    and unreg :: "'l \<Rightarrow> 'r \<Rightarrow> status \<times> 'r"
  assumes reg_ok: "fst (reg l r) = StatusOk"
    and reg_members:
      "members (snd (reg l r)) =
         (if node l \<in> set (members r) then members r else members r @ [node l])"
    and unreg_status: "fst (unreg l r) = StatusOk \<longleftrightarrow> node l \<in> set (members r)"
    and unreg_members: "members (snd (unreg l r)) = remove1 (node l) (members r)"
begin

lemma reg_distinct: "distinct (members r) \<Longrightarrow> distinct (members (snd (reg l r)))"
  by (auto simp: reg_members)

lemma unreg_distinct: "distinct (members r) \<Longrightarrow> distinct (members (snd (unreg l r)))"
  by (simp add: unreg_members)

lemma reg_idempotent: "members (snd (reg l (snd (reg l r)))) = members (snd (reg l r))"
  by (auto simp: reg_members)

lemma reg_member: "node l \<in> set (members (snd (reg l r)))"
  by (simp add: reg_members)

lemma unreg_after_reg:
  "node l \<notin> set (members r) \<Longrightarrow>
   fst (unreg l (snd (reg l r))) = StatusOk \<and> members (snd (unreg l (snd (reg l r)))) = members r"
  by (simp add: unreg_status unreg_members reg_members remove1_append)

lemma unreg_gone:
  "distinct (members r) \<Longrightarrow> node l \<notin> set (members (snd (unreg l r)))"
  by (simp add: unreg_members)

lemma unreg_other:
  "node l' \<noteq> node l \<Longrightarrow>
   node l' \<in> set (members (snd (unreg l r))) \<longleftrightarrow> node l' \<in> set (members r)"
  by (simp add: unreg_members in_set_remove1)

end

definition listener_nodes :: "binder_env \<Rightarrow> port \<Rightarrow> ibinder sp sp list" where
  "listener_nodes env p = map (map_option (asBinder env)) (m_eventListeners p)"

lemma areSameListener_simps [simp]:
  "areSameListener env None r = False"
  "areSameListener env l None = False"
  "areSameListener env (Some l') (Some r') \<longleftrightarrow> asBinder env l' = asBinder env r'"
  by (simp_all add: areSameListener_def split: option.splits)

lemma find_same_None:
  "List.find (\<lambda>x. areSameListener env x (Some l)) xs = None \<longleftrightarrow>
     Some (asBinder env l) \<notin> set (map (map_option (asBinder env)) xs)"
proof (induction xs)
  case (Cons a xs)
  then show ?case by (cases a) auto
qed simp

lemma eraseFirst_same:
  "map (map_option (asBinder env)) (eraseFirst (\<lambda>x. areSameListener env x (Some l)) xs) =
     remove1 (Some (asBinder env l)) (map (map_option (asBinder env)) xs)"
proof (induction xs)
  case (Cons a xs)
  then show ?case by (cases a) auto
qed simp

interpretation registry: listener_registry
  "\<lambda>l. Some (asBinder env l)" "listener_nodes env"
  "\<lambda>l. registerEventListener env (Some l)" "\<lambda>l. unregisterEventListener env (Some l)" for env
proof unfold_locales
  fix l r
  have split: "List.find (\<lambda>x. areSameListener env x (Some l)) (m_eventListeners r) = None \<longleftrightarrow>
      Some (asBinder env l) \<notin> set (listener_nodes env r)"
    by (simp only: find_same_None listener_nodes_def)
  show "fst (registerEventListener env (Some l) r) = StatusOk"
    by (simp add: registerEventListener_def split: option.splits)
  show "listener_nodes env (snd (registerEventListener env (Some l) r)) =
      (if Some (asBinder env l) \<in> set (listener_nodes env r) then listener_nodes env r
       else listener_nodes env r @ [Some (asBinder env l)])"
    using split by (auto simp: registerEventListener_def listener_nodes_def split: option.splits)
  show "(fst (unregisterEventListener env (Some l) r) = StatusOk) =
      (Some (asBinder env l) \<in> set (listener_nodes env r))"
    using split by (auto simp: unregisterEventListener_def split: option.splits)
  show "listener_nodes env (snd (unregisterEventListener env (Some l) r)) =
      remove1 (Some (asBinder env l)) (listener_nodes env r)"
    using split
    by (auto simp: unregisterEventListener_def listener_nodes_def eraseFirst_same remove1_idem
        split: option.splits)
qed

end
