(* ===== verification/Port_Session.thy ===== *)
theory Port_Session
  imports Port_State
begin

text \<open>
  The controller session of a port: \<open>open\<close>, \<open>close\<close>, \<open>startFromController\<close>,
  \<open>stopFromController\<close>, \<open>resetMetricsFromController\<close> and the clean-up after the death of
  the controlling client. Each critical section of the code is a definition of its own, and
  an operation composes its sections and the callbacks between them in the order of the
  code, for a caller that is not interrupted. \<open>Port_Interleaving\<close> runs the same sections
  from concurrent threads.
\<close>

section \<open>open\<close>

text \<open>
  The first section: \<open>None\<close> when the port is not CLOSED. It installs the session and
  yields the previous state, the listeners to notify, the cached connection state and the
  death recipient, if one is armed.
\<close>

definition openEnter ::
  "binder_env \<Rightarrow> iface \<Rightarrow> bool \<Rightarrow> port \<Rightarrow>
   (port \<times> lifecycle \<times> iface sp list \<times> bool \<times> uint64 sp) option" where
  "openEnter env listener observeListenerDeath p =
     (if m_state p \<noteq> CLOSED then None
      else
        let (p1, oldState, eventListeners) = setStateLocked OPENING p;
            sessionEpoch = m_sessionEpoch p1 + 1;
            deathRecipient = (if observeListenerDeath then Some sessionEpoch else None)
        in Some (p1\<lparr>m_controllerListener := Some listener,
                     m_controller := Some (newController env),
                     m_sessionEpoch := sessionEpoch,
                     m_deathCleanupPending := False,
                     m_controllerDeathRecipient := deathRecipient\<rparr>,
                 oldState, eventListeners, ps_connected (m_cachedStatus p1), deathRecipient))"

definition observesDeath :: "binder_env \<Rightarrow> iface \<Rightarrow> bool" where
  "observesDeath env listener =
     (case asBinder env listener of None \<Rightarrow> False | Some b \<Rightarrow> remoteBinder env b)"

text \<open>\<open>linkToDeath\<close> is called only with a recipient, hence with a non-null binder.\<close>

definition linkEffects :: "binder_env \<Rightarrow> iface \<Rightarrow> uint64 sp \<Rightarrow> effect list" where
  "linkEffects env listener deathRecipient =
     (case (asBinder env listener, deathRecipient) of
        (Some b, Some e) \<Rightarrow> [LinkToDeath b e] | _ \<Rightarrow> [])"

definition linkFails :: "binder_env \<Rightarrow> iface \<Rightarrow> uint64 sp \<Rightarrow> bool" where
  "linkFails env listener deathRecipient =
     (case (asBinder env listener, deathRecipient) of
        (Some b, Some e) \<Rightarrow> \<not> linkToDeathOk env b | _ \<Rightarrow> False)"

definition openRollback :: "port \<Rightarrow> port" where
  "openRollback p =
     (let p1 = p\<lparr>m_controller := None, m_controllerListener := None,
                 m_controllerDeathRecipient := None,
                 m_sessionEpoch := m_sessionEpoch p + 1,
                 m_deathCleanupPending := False\<rparr>;
          (p2, rolledBackFrom, ls) = setStateLocked CLOSED p1
      in resetSessionStateLocked p2)"

section \<open>Clean-up after the controller's death\<close>

datatype stop_stage =
    StopReturn port
  | StopBegun port lifecycle "iface sp list"
  | StopSkipped port

definition cleanupStopStage :: "uint64 \<Rightarrow> port \<Rightarrow> stop_stage" where
  "cleanupStopStage sessionEpoch p =
     (if m_sessionEpoch p \<noteq> sessionEpoch then StopReturn p
      else if m_state p = CLOSED then StopReturn p
      else if m_state p = OPENING \<or> m_state p = STARTING \<or> m_state p = STOPPING \<or>
              m_state p = CLOSING
      then StopReturn (p\<lparr>m_deathCleanupPending := True\<rparr>)
      else if m_state p = STARTED
      then (let (p1, oldState, ls) = setStateLocked STOPPING p in StopBegun p1 oldState ls)
      else StopSkipped p)"

datatype close_stage = CloseReturn port | CloseBegun port lifecycle "iface sp list"

definition cleanupCloseStage :: "uint64 \<Rightarrow> port \<Rightarrow> close_stage" where
  "cleanupCloseStage sessionEpoch p =
     (if m_sessionEpoch p \<noteq> sessionEpoch \<or> m_state p = CLOSED then CloseReturn p
      else if m_state p \<noteq> READY then CloseReturn (p\<lparr>m_deathCleanupPending := True\<rparr>)
      else (let (p1, oldState, ls) = setStateLocked CLOSING p in CloseBegun p1 oldState ls))"

definition cleanupFinish :: "port \<Rightarrow> port \<times> lifecycle \<times> iface sp list" where
  "cleanupFinish p =
     (let p1 = p\<lparr>m_controllerDeathRecipient := None, m_controller := None,
                 m_controllerListener := None,
                 m_sessionEpoch := m_sessionEpoch p + 1,
                 m_deathCleanupPending := False\<rparr>;
          (p2, oldState, ls) = setStateLocked CLOSED p1
      in (resetSessionStateLocked p2, oldState, ls))"

definition cleanupClosing ::
  "binder_env \<Rightarrow> uint64 \<Rightarrow> port \<Rightarrow> globals \<Rightarrow> port \<times> globals \<times> effect list" where
  "cleanupClosing env sessionEpoch p g =
     (case cleanupCloseStage sessionEpoch p of
        CloseReturn p1 \<Rightarrow> (p1, g, [])
      | CloseBegun p1 oldState ls \<Rightarrow>
          (let (p2, oldState2, ls2) = cleanupFinish p1
           in (p2, g, onStateChanged env ls oldState CLOSING @ onStateChanged env ls2 oldState2 CLOSED)))"

definition cleanupAfterControllerDeath ::
  "binder_env \<Rightarrow> uint64 \<Rightarrow> port \<Rightarrow> globals \<Rightarrow> port \<times> globals \<times> effect list" where
  "cleanupAfterControllerDeath env sessionEpoch p g =
     (case cleanupStopStage sessionEpoch p of
        StopReturn p1 \<Rightarrow> (p1, g, [])
      | StopSkipped p1 \<Rightarrow> cleanupClosing env sessionEpoch p1 g
      | StopBegun p1 oldState ls \<Rightarrow>
          (let (p2, oldState2, ls2) = setStateLocked READY p1;
               (p3, g3, es) = cleanupClosing env sessionEpoch p2 (releaseStartedSlot g)
           in (p3, g3, onStateChanged env ls oldState STOPPING @
                       onStateChanged env ls2 oldState2 READY @ es)))"

text \<open>The recipient holds a weak reference: \<open>alive\<close> tells whether it can be promoted.\<close>

definition binderDied ::
  "binder_env \<Rightarrow> bool \<Rightarrow> uint64 \<Rightarrow> port \<Rightarrow> globals \<Rightarrow> port \<times> globals \<times> effect list" where
  "binderDied env alive sessionEpoch p g =
     (if \<not> alive then (p, g, []) else cleanupAfterControllerDeath env sessionEpoch p g)"

definition takePending :: "port \<Rightarrow> (port \<times> uint64) option" where
  "takePending p =
     (if \<not> m_deathCleanupPending p then None
      else Some (p\<lparr>m_deathCleanupPending := False\<rparr>, m_sessionEpoch p))"

definition runPendingDeathCleanupIfNeeded ::
  "binder_env \<Rightarrow> port \<Rightarrow> globals \<Rightarrow> port \<times> globals \<times> effect list" where
  "runPendingDeathCleanupIfNeeded env p g =
     (case takePending p of
        None \<Rightarrow> (p, g, [])
      | Some (p1, sessionEpoch) \<Rightarrow> cleanupAfterControllerDeath env sessionEpoch p1 g)"

section \<open>The operations\<close>

definition open_port ::
  "binder_env \<Rightarrow> iface sp \<Rightarrow> controller sp out \<Rightarrow> port \<Rightarrow> globals \<Rightarrow>
   status \<times> controller sp out \<times> port \<times> globals \<times> effect list" where
  "open_port env listener ret p g =
     (case (ret, listener) of
        (Some _, Some l) \<Rightarrow>
          (case openEnter env l (observesDeath env l) p of
             None \<Rightarrow> (StatusEx EX_ILLEGAL_STATE, ret, p, g, [])
           | Some (p1, oldState, ls, connected, deathRecipient) \<Rightarrow>
               if linkFails env l deathRecipient
               then (StatusEx EX_ILLEGAL_STATE, Some None, openRollback p1, g,
                     linkEffects env l deathRecipient)
               else
                 (let (p2, oldState2, ls2) = setStateLocked READY p1;
                      (p3, g3, es) = runPendingDeathCleanupIfNeeded env p2 g
                  in (StatusOk, Some (m_controller p1), p3, g3,
                      linkEffects env l deathRecipient @
                      onStateChanged env ls oldState OPENING @
                      onConnectionChanged (Some l) connected @
                      onStateChanged env ls2 oldState2 READY @ es)))
      | _ \<Rightarrow> (StatusEx EX_NULL_POINTER, ret, p, g, []))"

datatype close_entry =
    CloseRejected
  | CloseForeign
  | CloseEntered port lifecycle "iface sp list"

definition closeEnter :: "controller \<Rightarrow> port \<Rightarrow> close_entry" where
  "closeEnter controller p =
     (if m_state p \<noteq> READY then CloseRejected
      else if Some controller \<noteq> m_controller p then CloseForeign
      else (let (p1, oldState, ls) = setStateLocked CLOSING p in CloseEntered p1 oldState ls))"

definition closeFinish ::
  "binder_env \<Rightarrow> port \<Rightarrow> port \<times> lifecycle \<times> iface sp list \<times> ibinder sp \<times> uint64 sp" where
  "closeFinish env p =
     (let closingListenerBinder =
            (case m_controllerListener p of None \<Rightarrow> None | Some l \<Rightarrow> asBinder env l);
          closingDeathRecipient = m_controllerDeathRecipient p;
          p1 = p\<lparr>m_controllerDeathRecipient := None, m_controller := None,
                 m_controllerListener := None,
                 m_sessionEpoch := m_sessionEpoch p + 1,
                 m_deathCleanupPending := False\<rparr>;
          (p2, oldState, ls) = setStateLocked CLOSED p1
      in (resetSessionStateLocked p2, oldState, ls, closingListenerBinder, closingDeathRecipient))"

definition unlinkEffects :: "ibinder sp \<Rightarrow> uint64 sp \<Rightarrow> effect list" where
  "unlinkEffects b r =
     (case (b, r) of (Some node, Some e) \<Rightarrow> [UnlinkToDeath node e] | _ \<Rightarrow> [])"

definition close_port ::
  "binder_env \<Rightarrow> controller sp \<Rightarrow> bool out \<Rightarrow> port \<Rightarrow> status \<times> bool out \<times> port \<times> effect list" where
  "close_port env controller ret p =
     (case (ret, controller) of
        (Some _, Some c) \<Rightarrow>
          (case closeEnter c p of
             CloseRejected \<Rightarrow> (StatusEx EX_ILLEGAL_STATE, ret, p, [])
           | CloseForeign \<Rightarrow> (StatusOk, Some False, p, [])
           | CloseEntered p1 oldState ls \<Rightarrow>
               (let (p2, oldState2, ls2, b, r) = closeFinish env p1
                in (StatusOk, Some True, p2,
                    onStateChanged env ls oldState CLOSING @ unlinkEffects b r @
                    onStateChanged env ls2 oldState2 CLOSED)))
      | _ \<Rightarrow> (StatusEx EX_NULL_POINTER, ret, p, []))"

definition startEnter :: "port \<Rightarrow> (port \<times> lifecycle \<times> iface sp list) option" where
  "startEnter p = (if m_state p \<noteq> READY then None else Some (setStateLocked STARTING p))"

definition startReadSignal :: "port \<Rightarrow> iface sp \<times> signal_status" where
  "startReadSignal p = (m_controllerListener p, ps_signalStatus (m_cachedStatus p))"

definition startBaseline ::
  "binder_env \<Rightarrow> port \<Rightarrow> port \<times> iface sp list \<times> property_value \<times> property_value" where
  "startBaseline env p =
     (p\<lparr>m_startTsMs := nowMs env\<rparr>,
      m_eventListeners p,
      (case m_cachedProperties p SIGNAL_STRENGTH of Some v \<Rightarrow> v | None \<Rightarrow> makeInt64 0),
      (case m_cachedProperties p SIGNAL_QUALITY of Some v \<Rightarrow> v | None \<Rightarrow> makeInt32 0))"

definition startFromController ::
  "binder_env \<Rightarrow> port \<Rightarrow> globals \<Rightarrow> status \<times> port \<times> globals \<times> effect list" where
  "startFromController env p g =
     (case acquireStartedSlot g of
        None \<Rightarrow> (StatusEx EX_ILLEGAL_STATE, p, g, [])
      | Some g1 \<Rightarrow>
          (case startEnter p of
             None \<Rightarrow> (StatusEx EX_ILLEGAL_STATE, p, releaseStartedSlot g1, [])
           | Some (p1, oldState, ls) \<Rightarrow>
               (let (controllerListener, signalStatus) = startReadSignal p1;
                    (p2, oldState2, ls2) = setStateLocked STARTED p1;
                    (p3, ls3, signalStrength, signalQuality) = startBaseline env p2;
                    (p4, g4, es) = runPendingDeathCleanupIfNeeded env p3 g1
                in (StatusOk, p4, g4,
                    onStateChanged env ls oldState STARTING @
                    onSignalStatusChanged controllerListener signalStatus @
                    onStateChanged env ls2 oldState2 STARTED @
                    onPropertyChanged env ls3 SIGNAL_STRENGTH signalStrength @
                    onPropertyChanged env ls3 SIGNAL_QUALITY signalQuality @ es))))"

definition stopEnter :: "port \<Rightarrow> (port \<times> lifecycle \<times> iface sp list) option" where
  "stopEnter p = (if m_state p \<noteq> STARTED then None else Some (setStateLocked STOPPING p))"

definition stopFromController ::
  "binder_env \<Rightarrow> port \<Rightarrow> globals \<Rightarrow> status \<times> port \<times> globals \<times> effect list" where
  "stopFromController env p g =
     (case stopEnter p of
        None \<Rightarrow> (StatusEx EX_ILLEGAL_STATE, p, g, [])
      | Some (p1, oldState, ls) \<Rightarrow>
          (let (p2, oldState2, ls2) = setStateLocked READY p1;
               (p3, g3, es) = runPendingDeathCleanupIfNeeded env p2 (releaseStartedSlot g)
           in (StatusOk, p3, g3,
               onStateChanged env ls oldState STOPPING @
               onStateChanged env ls2 oldState2 READY @ es)))"

definition resetMetricsFromController :: "binder_env \<Rightarrow> port \<Rightarrow> status \<times> port \<times> effect list" where
  "resetMetricsFromController env p =
     (let zeroValue = makeInt64 0;
          resetTimestampValue = makeInt64 (nowWallClockMs env)
      in if m_state p \<noteq> STARTED then (StatusEx EX_ILLEGAL_STATE, p, [])
         else
           (let ls = m_eventListeners p
            in (StatusOk,
                p\<lparr>m_signalDrops := 0, m_signalLockCount := 0, m_signalLockTimeMs := 0,
                  m_lastSignalLockTimeMs := 0,
                  m_startTsMs := nowMs env, m_lastResetTsMs := nowMs env,
                  m_cachedProperties := (m_cachedProperties p)
                    (METRIC_SIGNAL_DROPS \<mapsto> zeroValue,
                     METRIC_SIGNAL_LOCK_COUNT \<mapsto> zeroValue,
                     METRIC_SIGNAL_LOCK_TIME \<mapsto> zeroValue,
                     METRIC_LAST_SIGNAL_LOCK_TIME \<mapsto> zeroValue,
                     METRIC_UPTIME \<mapsto> zeroValue,
                     METRIC_LAST_RESET_TIMESTAMP \<mapsto> resetTimestampValue)\<rparr>,
                onPropertyChanged env ls METRIC_SIGNAL_DROPS zeroValue @
                onPropertyChanged env ls METRIC_SIGNAL_LOCK_COUNT zeroValue @
                onPropertyChanged env ls METRIC_SIGNAL_LOCK_TIME zeroValue @
                onPropertyChanged env ls METRIC_LAST_SIGNAL_LOCK_TIME zeroValue @
                onPropertyChanged env ls METRIC_UPTIME zeroValue @
                onPropertyChanged env ls METRIC_LAST_RESET_TIMESTAMP resetTimestampValue)))"

lemmas section_defs =
  openEnter_def openRollback_def cleanupStopStage_def cleanupCloseStage_def cleanupFinish_def
  takePending_def closeEnter_def closeFinish_def startEnter_def startReadSignal_def
  startBaseline_def stopEnter_def setStateLocked_def

lemmas operation_defs =
  open_port_def close_port_def startFromController_def stopFromController_def
  cleanupAfterControllerDeath_def cleanupClosing_def runPendingDeathCleanupIfNeeded_def

end
