(* ===== verification/Port_Properties.thy ===== *)
theory Port_Properties
  imports Port_Session
begin

text \<open>
  Property access of a port: \<open>getProperty\<close>, \<open>getPropertyMulti\<close>,
  \<open>setPropertyFromController\<close>, \<open>setPropertyMultiFromController\<close> and their checks. The
  cache is used through the interface of a typed store; the batch operations are related
  to the single ones.
\<close>

section \<open>Checks\<close>

fun isValidPortProperty :: "port_property \<Rightarrow> bool" where
  "isValidPortProperty (OTHER_PROPERTY _) = False"
| "isValidPortProperty _ = True"

fun writableIn :: "property_metadata option list \<Rightarrow> port_property \<Rightarrow> bool" where
  "writableIn [] k = False"
| "writableIn (None # ms) k = writableIn ms k"
| "writableIn (Some m # ms) k = (if md_key m = k then \<not> md_readOnly m else writableIn ms k)"

definition isPropertyWritableLocked :: "port_property \<Rightarrow> port \<Rightarrow> bool" where
  "isPropertyWritableLocked k p =
     (case pc_propertyMetadata (m_capabilities p) of
        None \<Rightarrow> False
      | Some ms \<Rightarrow> writableIn ms k)"

text \<open>
  The comparison of a tag with a declared type. A type that the switch does not list
  (\<open>None\<close>) falls out of it, and the loop goes on to the next entry.
\<close>

fun tagMatches :: "property_type \<Rightarrow> value_union \<Rightarrow> bool option" where
  "tagMatches BOOLEAN v = Some (case v of BooleanValue _ \<Rightarrow> True | _ \<Rightarrow> False)"
| "tagMatches INTEGER v = Some (case v of IntValue _ \<Rightarrow> True | _ \<Rightarrow> False)"
| "tagMatches LONG v = Some (case v of LongValue _ \<Rightarrow> True | _ \<Rightarrow> False)"
| "tagMatches FLOAT v = Some (case v of FloatValue _ \<Rightarrow> True | _ \<Rightarrow> False)"
| "tagMatches DOUBLE v = Some (case v of DoubleValue _ \<Rightarrow> True | _ \<Rightarrow> False)"
| "tagMatches STRING v = Some (case v of StringValue _ \<Rightarrow> True | _ \<Rightarrow> False)"
| "tagMatches (OTHER_TYPE _) v = None"

fun typeValidIn :: "property_metadata option list \<Rightarrow> port_property \<Rightarrow> value_union \<Rightarrow> bool" where
  "typeValidIn [] k v = False"
| "typeValidIn (None # ms) k v = typeValidIn ms k v"
| "typeValidIn (Some m # ms) k v =
     (if md_key m \<noteq> k then typeValidIn ms k v
      else case tagMatches (md_type m) v of
             Some b \<Rightarrow> b
           | None \<Rightarrow> typeValidIn ms k v)"

definition isPropertyValueTypeValidLocked :: "port_property \<Rightarrow> property_value \<Rightarrow> port \<Rightarrow> bool" where
  "isPropertyValueTypeValidLocked k value p =
     (case (pc_propertyMetadata (m_capabilities p), pv_value value) of
        (Some ms, Some v) \<Rightarrow> typeValidIn ms k v
      | _ \<Rightarrow> False)"

section \<open>Reading\<close>

definition preStartBaseline :: "port_property \<Rightarrow> port \<Rightarrow> bool" where
  "preStartBaseline k p \<longleftrightarrow>
     (k = SIGNAL_STRENGTH \<or> k = SIGNAL_QUALITY) \<and> m_state p \<noteq> STARTING \<and> m_state p \<noteq> STARTED"

definition getProperty ::
  "port_property \<Rightarrow> property_value option out \<Rightarrow> port \<Rightarrow> status \<times> property_value option out" where
  "getProperty k ret p =
     (if ret = None then (StatusEx EX_NULL_POINTER, ret)
      else if \<not> isValidPortProperty k then (StatusEx EX_ILLEGAL_ARGUMENT, ret)
      else if preStartBaseline k p
      then (StatusOk, Some (Some (if k = SIGNAL_STRENGTH then makeInt64 0 else makeInt32 0)))
      else case m_cachedProperties p k of
             Some v \<Rightarrow>
               if List.member (m_supportedProperties p) k
               then (StatusOk, Some (Some v)) else (StatusOk, Some None)
           | None \<Rightarrow> (StatusOk, Some None))"

definition multiEntry :: "port_property \<Rightarrow> port \<Rightarrow> property_kv_pair" where
  "multiEntry k p =
     \<lparr>kv_property = k,
      kv_value =
        (if preStartBaseline k p
         then (if k = SIGNAL_STRENGTH then makeInt64 0 else makeInt32 0)
         else case m_cachedProperties p k of
                Some v \<Rightarrow>
                  if List.member (m_supportedProperties p) k then v else makeNullPropertyValue
              | None \<Rightarrow> makeNullPropertyValue)\<rparr>"

definition getPropertyMulti ::
  "port_property list \<Rightarrow> property_kv_pair list out \<Rightarrow> port \<Rightarrow> status \<times> property_kv_pair list out" where
  "getPropertyMulti properties ret p =
     (if ret = None then (StatusEx EX_NULL_POINTER, ret)
      else if properties = [] then (StatusEx EX_ILLEGAL_ARGUMENT, ret)
      else if list_ex (\<lambda>k. \<not> isValidPortProperty k) properties
      then (StatusEx EX_ILLEGAL_ARGUMENT, ret)
      else (StatusOk, Some (map (\<lambda>k. multiEntry k p) properties)))"

section \<open>Writing\<close>

definition cacheWrite :: "port_property \<Rightarrow> property_value \<Rightarrow> port \<Rightarrow> port" where
  "cacheWrite k v p = p\<lparr>m_cachedProperties := (m_cachedProperties p)(k \<mapsto> v)\<rparr>"

definition setPropertyFromController ::
  "binder_env \<Rightarrow> port_property \<Rightarrow> property_value \<Rightarrow> port \<Rightarrow> status \<times> port \<times> effect list" where
  "setPropertyFromController env k value p =
     (if \<not> isValidPortProperty k then (StatusEx EX_ILLEGAL_ARGUMENT, p, [])
      else if \<not> supportsPropertyLocked k p then (StatusEx EX_ILLEGAL_ARGUMENT, p, [])
      else if \<not> isPropertyWritableLocked k p then (StatusEx EX_UNSUPPORTED_OPERATION, p, [])
      else if \<not> isPropertyValueTypeValidLocked k value p then (StatusEx EX_ILLEGAL_ARGUMENT, p, [])
      else (StatusOk, cacheWrite k value p,
            onPropertyChanged env (m_eventListeners p) k value))"

text \<open>The validation loop: the first offending entry decides the exception.\<close>

fun validateBatch :: "property_kv_pair list \<Rightarrow> port \<Rightarrow> exception_code option" where
  "validateBatch [] p = None"
| "validateBatch (kv # kvs) p =
     (if \<not> isValidPortProperty (kv_property kv) \<or> \<not> supportsPropertyLocked (kv_property kv) p
      then Some EX_ILLEGAL_ARGUMENT
      else if \<not> isPropertyWritableLocked (kv_property kv) p then Some EX_UNSUPPORTED_OPERATION
      else if \<not> isPropertyValueTypeValidLocked (kv_property kv) (kv_value kv) p
      then Some EX_ILLEGAL_ARGUMENT
      else validateBatch kvs p)"

fun writeBatch :: "property_kv_pair list \<Rightarrow> port \<Rightarrow> port" where
  "writeBatch [] p = p"
| "writeBatch (kv # kvs) p = writeBatch kvs (cacheWrite (kv_property kv) (kv_value kv) p)"

fun notifyBatch :: "binder_env \<Rightarrow> iface sp list \<Rightarrow> property_kv_pair list \<Rightarrow> effect list" where
  "notifyBatch env ls [] = []"
| "notifyBatch env ls (kv # kvs) =
     onPropertyChanged env ls (kv_property kv) (kv_value kv) @ notifyBatch env ls kvs"

definition setPropertyMultiFromController ::
  "binder_env \<Rightarrow> property_kv_pair list \<Rightarrow> port \<Rightarrow> status \<times> port \<times> effect list" where
  "setPropertyMultiFromController env properties p =
     (if properties = [] then (StatusEx EX_ILLEGAL_ARGUMENT, p, [])
      else case validateBatch properties p of
             Some e \<Rightarrow> (StatusEx e, p, [])
           | None \<Rightarrow> (StatusOk, writeBatch properties p,
                      notifyBatch env (m_eventListeners p) properties))"

section \<open>The cache as a store\<close>

text \<open>
  The interface the property operations use: a store in which a written value is read
  back, other keys are untouched, and whether a write is admissible does not depend on what
  was written before.
\<close>

locale property_store =
  fixes read :: "'k \<Rightarrow> 's \<Rightarrow> 'v option"
    and put :: "'k \<Rightarrow> 'v \<Rightarrow> 's \<Rightarrow> 's"
    and admissible :: "'k \<Rightarrow> 'v \<Rightarrow> 's \<Rightarrow> bool"
  assumes read_put: "read k (put k v s) = Some v"
    and read_put_other: "k' \<noteq> k \<Longrightarrow> read k' (put k v s) = read k' s"
    and admissible_put: "admissible k' v' (put k v s) \<longleftrightarrow> admissible k' v' s"
begin

lemma read_fold_put:
  "read k (fold (\<lambda>(k, v). put k v) kvs s) =
     (case map_of (rev kvs) k of Some v \<Rightarrow> Some v | None \<Rightarrow> read k s)"
proof (induction kvs rule: rev_induct)
  case (snoc kv kvs)
  obtain k' v' where "kv = (k', v')" by fastforce
  with snoc show ?case
    by (cases "k = k'") (auto simp: read_put read_put_other)
qed simp

lemma admissible_fold_put:
  "admissible k v (fold (\<lambda>(k, v). put k v) kvs s) \<longleftrightarrow> admissible k v s"
proof (induction kvs arbitrary: s)
  case (Cons kv kvs)
  obtain k' v' where "kv = (k', v')" by fastforce
  with Cons show ?case by (simp only: fold_Cons comp_def split admissible_put)
qed simp

lemma batch_admissible:
  "(\<forall>(k, v) \<in> set kvs. admissible k v s) \<Longrightarrow>
   (\<forall>(k, v) \<in> set kvs. admissible k v (fold (\<lambda>(k, v). put k v) kvs' s))"
  by (auto simp: admissible_fold_put)

end

definition writeAdmissible :: "port_property \<Rightarrow> property_value \<Rightarrow> port \<Rightarrow> bool" where
  "writeAdmissible k v p \<longleftrightarrow>
     isValidPortProperty k \<and> supportsPropertyLocked k p \<and> isPropertyWritableLocked k p \<and>
     isPropertyValueTypeValidLocked k v p"

interpretation cache: property_store
  "\<lambda>k p. m_cachedProperties p k" cacheWrite writeAdmissible
  by unfold_locales
    (auto simp: cacheWrite_def writeAdmissible_def supportsPropertyLocked_def
      isPropertyWritableLocked_def isPropertyValueTypeValidLocked_def)

abbreviation pairs :: "property_kv_pair list \<Rightarrow> (port_property \<times> property_value) list" where
  "pairs kvs \<equiv> map (\<lambda>kv. (kv_property kv, kv_value kv)) kvs"

lemma writeBatch_fold: "writeBatch kvs p = fold (\<lambda>(k, v). cacheWrite k v) (pairs kvs) p"
  by (induction kvs arbitrary: p) auto

lemma validateBatch_None:
  "validateBatch kvs p = None \<longleftrightarrow> (\<forall>(k, v) \<in> set (pairs kvs). writeAdmissible k v p)"
  by (induction kvs) (auto simp: writeAdmissible_def)

lemma set_ok_iff:
  "fst (setPropertyFromController env k v p) = StatusOk \<longleftrightarrow> writeAdmissible k v p"
  by (simp add: setPropertyFromController_def writeAdmissible_def)

lemma set_result:
  "setPropertyFromController env k v p =
     (if writeAdmissible k v p
      then (StatusOk, cacheWrite k v p, onPropertyChanged env (m_eventListeners p) k v)
      else (fst (setPropertyFromController env k v p), p, []))"
  by (simp add: setPropertyFromController_def writeAdmissible_def)

lemma cacheWrite_frame [simp]:
  "m_portId (cacheWrite k v p) = m_portId p"
  "m_state (cacheWrite k v p) = m_state p"
  "m_cachedStatus (cacheWrite k v p) = m_cachedStatus p"
  "m_controller (cacheWrite k v p) = m_controller p"
  "m_controllerListener (cacheWrite k v p) = m_controllerListener p"
  "m_controllerDeathRecipient (cacheWrite k v p) = m_controllerDeathRecipient p"
  "m_sessionEpoch (cacheWrite k v p) = m_sessionEpoch p"
  "m_deathCleanupPending (cacheWrite k v p) = m_deathCleanupPending p"
  "m_eventListeners (cacheWrite k v p) = m_eventListeners p"
  "m_capabilities (cacheWrite k v p) = m_capabilities p"
  "m_supportedProperties (cacheWrite k v p) = m_supportedProperties p"
  by (simp_all add: cacheWrite_def)

lemma notifyBatch_updates:
  "seen_updates l (notifyBatch env ls kvs) =
     concat (map (\<lambda>kv. replicate (count_list ls (Some l)) (kv_property kv, kv_value kv)) kvs)"
  by (induction kvs) (auto simp: effect_simps)

lemma writableIn_writable: "writableIn ms k \<Longrightarrow> \<exists>m. Some m \<in> set ms \<and> \<not> md_readOnly m"
proof (induction ms)
  case (Cons x ms)
  then show ?case by (cases x) (auto split: if_splits)
qed simp

lemma writableIn_readOnly:
  "\<forall>m. Some m \<in> set ms \<longrightarrow> md_readOnly m \<Longrightarrow> \<not> writableIn ms k"
  by (meson writableIn_writable)

section \<open>Properties\<close>

text \<open>
  Reading a property. A null result pointer or an unknown key is refused and the
  result left alone; before STARTING and outside STARTED the two signal properties read as
  0; otherwise the cached value is returned exactly for a supported property, and null for
  any other.
\<close>

lemma getProperty_spec:
  "getProperty k None p = (StatusEx EX_NULL_POINTER, None) \<and>
   getProperty (OTHER_PROPERTY n) (Some old) p = (StatusEx EX_ILLEGAL_ARGUMENT, Some old) \<and>
   (isValidPortProperty k \<longrightarrow>
      getProperty k (Some old) p =
        (StatusOk, Some
          (if k = SIGNAL_STRENGTH \<and> m_state p \<notin> {STARTING, STARTED} then Some (makeInt64 0)
           else if k = SIGNAL_QUALITY \<and> m_state p \<notin> {STARTING, STARTED} then Some (makeInt32 0)
           else if supportsPropertyLocked k p then m_cachedProperties p k
           else None)))"
  by (auto simp: getProperty_def preStartBaseline_def supportsPropertyLocked_def split: option.splits)

text \<open>
  The batch read agrees with the single read, entry by entry and in request order; a
  property that the single read reports as null is reported with a null value.
\<close>

lemma getPropertyMulti_pointwise:
  assumes "ks \<noteq> []" and "\<forall>k \<in> set ks. isValidPortProperty k"
  shows "getPropertyMulti ks (Some old) p =
    (StatusOk, Some (map (\<lambda>k. \<lparr>kv_property = k,
       kv_value = (case getProperty k (Some None) p of
                     (_, Some (Some v)) \<Rightarrow> v | _ \<Rightarrow> makeNullPropertyValue)\<rparr>) ks))"
proof -
  have "multiEntry k p = \<lparr>kv_property = k,
       kv_value = (case getProperty k (Some None) p of
                     (_, Some (Some v)) \<Rightarrow> v | _ \<Rightarrow> makeNullPropertyValue)\<rparr>"
    if "k \<in> set ks" for k
    using that assms(2) by (auto simp: multiEntry_def getProperty_def split: option.splits)
  moreover have "\<not> list_ex (\<lambda>k. \<not> isValidPortProperty k) ks"
    using assms(2) by (auto simp: list_ex_iff)
  ultimately show ?thesis
    using assms(1) by (simp add: getPropertyMulti_def)
qed

text \<open>
  C20: a batch write is all or nothing. When it is refused the port is unchanged and nobody
  is notified; when it succeeds it has the effect of the single writes in order, each of
  which would have succeeded, and the last write to a key wins.
\<close>

theorem setPropertyMulti_all_or_nothing:
  "let (st, p', es) = setPropertyMultiFromController env kvs p in
     (st = StatusOk \<longleftrightarrow> kvs \<noteq> [] \<and> (\<forall>kv \<in> set kvs. writeAdmissible (kv_property kv) (kv_value kv) p)) \<and>
     (st \<noteq> StatusOk \<longrightarrow> p' = p \<and> es = []) \<and>
     (st = StatusOk \<longrightarrow>
        p' = fold (\<lambda>kv q. fst (snd (setPropertyFromController env (kv_property kv) (kv_value kv) q))) kvs p \<and>
        (\<forall>k. m_cachedProperties p' k =
           (case map_of (rev (pairs kvs)) k of Some v \<Rightarrow> Some v | None \<Rightarrow> m_cachedProperties p k)))"
proof -
  have singles: "\<forall>kv \<in> set kvs'. writeAdmissible (kv_property kv) (kv_value kv) q \<Longrightarrow>
      fold (\<lambda>kv q. fst (snd (setPropertyFromController env (kv_property kv) (kv_value kv) q))) kvs' q =
      writeBatch kvs' q" for kvs' q
  proof (induction kvs' arbitrary: q)
    case (Cons kv kvs')
    then show ?case
      using set_result [of env "kv_property kv" "kv_value kv" q]
      by (simp add: cache.admissible_put)
  qed simp
  show ?thesis
  proof (cases "validateBatch kvs p")
    case None
    then have "\<forall>kv \<in> set kvs. writeAdmissible (kv_property kv) (kv_value kv) p"
      by (auto simp: validateBatch_None)
    with None show ?thesis
      by (simp add: setPropertyMultiFromController_def singles writeBatch_fold cache.read_fold_put)
  next
    case (Some e)
    then have "\<not> (\<forall>kv \<in> set kvs. writeAdmissible (kv_property kv) (kv_value kv) p)"
      using validateBatch_None [of kvs p] by auto
    with Some show ?thesis
      by (simp add: setPropertyMultiFromController_def)
  qed
qed

theorem setPropertyMulti_all_or_nothing_witness:
  "\<forall>env. setPropertyMultiFromController env [] (CompositeInputPort 0) \<noteq>
       (StatusOk, CompositeInputPort 0, []) \<and>
     snd (setPropertyMultiFromController env
        [\<lparr>kv_property = SIGNAL_QUALITY, kv_value = makeInt32 7\<rparr>] (CompositeInputPort 0)) =
       (CompositeInputPort 0, [])"
proof
  fix env
  let ?p = "CompositeInputPort 0"
  let ?kv = "\<lparr>kv_property = SIGNAL_QUALITY, kv_value = makeInt32 7\<rparr>"
  have "\<not> writeAdmissible SIGNAL_QUALITY (makeInt32 7) ?p"
    by (simp add: writeAdmissible_def supportsPropertyLocked_def CompositeInputPort_def)
  then show "setPropertyMultiFromController env [] ?p \<noteq> (StatusOk, ?p, []) \<and>
      snd (setPropertyMultiFromController env [?kv] ?p) = (?p, [])"
    using setPropertyMulti_all_or_nothing [of env "[]" ?p]
      setPropertyMulti_all_or_nothing [of env "[?kv]" ?p]
    by (auto simp: Let_def case_prod_unfold prod_eq_iff)
qed

text \<open>
  With a profile whose metadata is all read-only (as the shipped profile is), no
  controller write ever changes a port: single and batch writes are refused in every state.
\<close>

lemma read_only_profile_blocks_writes:
  assumes "pc_propertyMetadata (m_capabilities p) = Some ms"
    and "\<forall>m. Some m \<in> set ms \<longrightarrow> md_readOnly m"
  shows "fst (setPropertyFromController env k v p) \<noteq> StatusOk \<and>
     snd (setPropertyFromController env k v p) = (p, []) \<and>
     fst (setPropertyMultiFromController env kvs p) \<noteq> StatusOk \<and>
     snd (setPropertyMultiFromController env kvs p) = (p, [])"
proof -
  have no: "\<not> writeAdmissible k v p" for k v
    using assms by (simp add: writeAdmissible_def isPropertyWritableLocked_def writableIn_readOnly)
  then have "fst (setPropertyFromController env k v p) \<noteq> StatusOk"
    by (simp add: set_ok_iff)
  moreover have "snd (setPropertyFromController env k v p) = (p, [])"
    using set_result [of env k v p] no by (metis snd_conv)
  moreover have "validateBatch kvs p \<noteq> None" if "kvs \<noteq> []"
    using that no validateBatch_None [of kvs p] by (cases kvs) auto
  ultimately show ?thesis
    by (auto simp: setPropertyMultiFromController_def)
qed

end
