(* ===== verification/Ut_Commands.thy ===== *)
theory Ut_Commands
  imports Event_Dispatch Helper
begin

text \<open>
  The UT control-plane vocabulary (\<open>vcomponent_CompositeInputUtController.h\<close> and the map
  table and \<open>decodeCommand\<close> of its \<open>.cpp\<close>), and the ut-core key/value API the component
  reads messages and profiles through. ut-core is not part of the repository: an opened KVP
  instance is a record of functions, and the look-up in a map table is an argument.
\<close>

section \<open>ut-core interfaces\<close>

datatype kvp_status = UT_KVP_STATUS_SUCCESS | UT_KVP_STATUS_FAILURE

text \<open>
  An open instance. \<open>ut_kvp_getStringField key size\<close> stands for a call with a
  zero-initialised buffer of that size: its status, and the C string the buffer then holds.
\<close>

record kvp =
  ut_kvp_fieldPresent :: "string \<Rightarrow> bool"
  ut_kvp_getBoolField :: "string \<Rightarrow> bool"
  ut_kvp_getUInt32Field :: "string \<Rightarrow> uint32"
  ut_kvp_getUInt64Field :: "string \<Rightarrow> uint64"
  ut_kvp_getFloatField :: "string \<Rightarrow> cfloat"
  ut_kvp_getStringField :: "string \<Rightarrow> nat \<Rightarrow> kvp_status \<times> string"
  ut_kvp_getListCount :: "string \<Rightarrow> uint32"

text \<open>
  \<open>UT_Control_GetMapValue(map, key, default)\<close>. The code relies on the documented
  behaviour: the value of the first entry before the \<open>{NULL, -1}\<close> sentinel whose string
  equals the key, or the default.
\<close>

type_synonym map_table = "(string sp \<times> int) list"
type_synonym get_map_value = "map_table \<Rightarrow> string \<Rightarrow> int \<Rightarrow> int"

definition map_value_spec :: "get_map_value \<Rightarrow> bool" where
  "map_value_spec getMapValue \<longleftrightarrow>
     (\<forall>entries key dflt.
        getMapValue (map (\<lambda>(k, v). (Some k, v)) entries @ [(None, -1)]) key dflt =
          (case map_of entries key of Some v \<Rightarrow> v | None \<Rightarrow> dflt))"

section \<open>Commands\<close>

datatype ut_command =
    CONNECTION_STATUS | SIGNAL_STATUS | VIDEO_MODE | SET_PROPERTY | CLEAR_VIDEO_MODE
  | UNKNOWN | OTHER_COMMAND int

text \<open>The two \<open>static_cast\<close>s between the enumeration and \<open>int32_t\<close>.\<close>

fun ut_command_to_int :: "ut_command \<Rightarrow> int" where
  "ut_command_to_int CONNECTION_STATUS = 0"
| "ut_command_to_int SIGNAL_STATUS = 1"
| "ut_command_to_int VIDEO_MODE = 2"
| "ut_command_to_int SET_PROPERTY = 3"
| "ut_command_to_int CLEAR_VIDEO_MODE = 4"
| "ut_command_to_int UNKNOWN = -1"
| "ut_command_to_int (OTHER_COMMAND n) = n"

definition ut_command_of_int :: "int \<Rightarrow> ut_command" where
  "ut_command_of_int n =
     (if n = 0 then CONNECTION_STATUS else if n = 1 then SIGNAL_STATUS
      else if n = 2 then VIDEO_MODE else if n = 3 then SET_PROPERTY
      else if n = 4 then CLEAR_VIDEO_MODE else if n = -1 then UNKNOWN
      else OTHER_COMMAND n)"

definition utControllerEntries :: "(string \<times> int) list" where
  "utControllerEntries =
     [(''connection_status'', ut_command_to_int CONNECTION_STATUS),
      (''signal_status'', ut_command_to_int SIGNAL_STATUS),
      (''video_mode'', ut_command_to_int VIDEO_MODE),
      (''set_property'', ut_command_to_int SET_PROPERTY),
      (''clear_video_mode'', ut_command_to_int CLEAR_VIDEO_MODE),
      (''setConnection'', ut_command_to_int CONNECTION_STATUS),
      (''setSignalStatus'', ut_command_to_int SIGNAL_STATUS),
      (''setVideoMode'', ut_command_to_int VIDEO_MODE),
      (''setProperty'', ut_command_to_int SET_PROPERTY),
      (''clearVideoMode'', ut_command_to_int CLEAR_VIDEO_MODE)]"

definition compositeInputUtControllerMapTable :: map_table where
  "compositeInputUtControllerMapTable =
     map (\<lambda>(k, v). (Some k, v)) utControllerEntries @ [(None, -1)]"

definition decodeCommand :: "get_map_value \<Rightarrow> string \<Rightarrow> ut_command" where
  "decodeCommand getMapValue token =
     (if token = [] then UNKNOWN
      else ut_command_of_int
             (getMapValue compositeInputUtControllerMapTable token (ut_command_to_int UNKNOWN)))"

text \<open>A scan that behaves as documented, to instantiate the parameter.\<close>

fun scan_map :: get_map_value where
  "scan_map [] key dflt = dflt"
| "scan_map ((None, v) # entries) key dflt = dflt"
| "scan_map ((Some k, v) # entries) key dflt =
     (if k = key then v else scan_map entries key dflt)"

lemma scan_map_spec: "map_value_spec scan_map"
proof -
  have "scan_map (map (\<lambda>(k, v). (Some k, v)) entries @ [(None, -1)]) key dflt =
      (case map_of entries key of Some v \<Rightarrow> v | None \<Rightarrow> dflt)" for entries key dflt
    by (induction entries) auto
  then show ?thesis by (simp add: map_value_spec_def)
qed

lemma decode_map_of:
  assumes "map_value_spec getMapValue"
  shows "decodeCommand getMapValue token =
    (case map_of utControllerEntries token of Some v \<Rightarrow> ut_command_of_int v | None \<Rightarrow> UNKNOWN)"
proof (cases token)
  case Nil
  then show ?thesis by (simp add: decodeCommand_def utControllerEntries_def)
next
  case Cons
  then show ?thesis
    using assms
    by (auto simp: decodeCommand_def map_value_spec_def compositeInputUtControllerMapTable_def
        ut_command_of_int_def split: option.splits)
qed

section \<open>Properties\<close>

text \<open>The command that the helper's own table assigns to a token.\<close>

fun ut_command_of_helper :: "helper_command \<Rightarrow> ut_command" where
  "ut_command_of_helper SET_CONNECTION = CONNECTION_STATUS"
| "ut_command_of_helper SET_SIGNAL_STATUS = SIGNAL_STATUS"
| "ut_command_of_helper HELPER_SET_PROPERTY = SET_PROPERTY"
| "ut_command_of_helper SET_VIDEO_MODE = VIDEO_MODE"
| "ut_command_of_helper HELPER_CLEAR_VIDEO_MODE = CLEAR_VIDEO_MODE"

text \<open>
  C40: the control plane decodes exactly the ten spellings of its table, so a command
  without padding is understood as the helper's table understands it, with one exception:
  \<open>property_changed\<close>, which the helper accepts and the control plane drops.
\<close>

theorem decodeCommand_agrees_with_helper:
  assumes "map_value_spec getMapValue" and "trim token = token"
  shows "decodeCommand getMapValue token =
    (if token = ''property_changed'' then UNKNOWN
     else case utCommandFromString token (Some SET_CONNECTION) of
            (True, Some c) \<Rightarrow> ut_command_of_helper c
          | _ \<Rightarrow> UNKNOWN)"
  unfolding decode_map_of [OF assms(1)]
  by (simp add: utCommandFromString_def fromString_def uc.lookup_map_of assms(2)
      utControllerEntries_def kUtCommandTokens_def ut_command_of_int_def)

theorem decodeCommand_agrees_with_helper_witness:
  "decodeCommand scan_map ''signal_status'' = SIGNAL_STATUS \<and>
   decodeCommand scan_map ''property_changed'' = UNKNOWN"
proof
  have t: "trim ''signal_status'' = ''signal_status''" "trim ''property_changed'' = ''property_changed''"
    by (simp_all add: trim_no_space isspace_def)
  show "decodeCommand scan_map ''signal_status'' = SIGNAL_STATUS"
    using decodeCommand_agrees_with_helper [OF scan_map_spec t(1)]
    by (simp add: utCommandFromString_def fromString_def uc.lookup_map_of t kUtCommandTokens_def)
  show "decodeCommand scan_map ''property_changed'' = UNKNOWN"
    using decodeCommand_agrees_with_helper [OF scan_map_spec t(2)] by simp
qed

end
