(* ===== verification/Port_Ut.thy ===== *)
theory Port_Ut
  imports Port_Properties Ut_Commands
begin

text \<open>
  \<open>CompositeInputPort::handleUTControlPlaneMessage\<close>: the commands by which the UT control
  plane plays the hardware. One definition per command, then the dispatcher.
\<close>

section \<open>Message keys\<close>

definition kUtCommandKey :: string where "kUtCommandKey = ''compositeinput.command''"
definition kConnectedKey :: string where "kConnectedKey = ''compositeinput.params.connected''"
definition kSignalStatusKey :: string where "kSignalStatusKey = ''compositeinput.params.signalStatus''"
definition kPropertyKey :: string where "kPropertyKey = ''compositeinput.params.key''"
definition kIntValueKey :: string where "kIntValueKey = ''compositeinput.params.intValue''"
definition kLongValueKey :: string where "kLongValueKey = ''compositeinput.params.longValue''"
definition kPixelWidthKey :: string where "kPixelWidthKey = ''compositeinput.params.pixelWidth''"
definition kPixelHeightKey :: string where "kPixelHeightKey = ''compositeinput.params.pixelHeight''"
definition kInterlacedKey :: string where "kInterlacedKey = ''compositeinput.params.interlaced''"
definition kFrameRateInHzKey :: string where "kFrameRateInHzKey = ''compositeinput.params.frameRateInHz''"
definition kWidthKey :: string where "kWidthKey = ''compositeinput.params.width''"
definition kHeightKey :: string where "kHeightKey = ''compositeinput.params.height''"
definition kIsInterlacedKey :: string where "kIsInterlacedKey = ''compositeinput.params.isInterlaced''"
definition kFrameRateKey :: string where "kFrameRateKey = ''compositeinput.params.frameRate''"
definition kFpsKey :: string where "kFpsKey = ''compositeinput.params.fps''"

fun firstPresentKey :: "kvp \<Rightarrow> string sp list \<Rightarrow> string sp" where
  "firstPresentKey kvp [] = None"
| "firstPresentKey kvp (key # candidates) =
     (case key of
        Some k \<Rightarrow> if ut_kvp_fieldPresent kvp k then Some k else firstPresentKey kvp candidates
      | None \<Rightarrow> firstPresentKey kvp candidates)"

declare firstPresentKey.simps [simp del]

definition kvp_string :: "kvp \<Rightarrow> string \<Rightarrow> string" where
  "kvp_string kvp key = snd (ut_kvp_getStringField kvp key 128)"

section \<open>Commands\<close>

definition publishesTelemetry :: "port \<Rightarrow> bool" where
  "publishesTelemetry p \<longleftrightarrow> m_state p = STARTING \<or> m_state p = STARTED"

definition utConnection :: "kvp \<Rightarrow> port \<Rightarrow> port \<times> effect list" where
  "utConnection kvp p =
     (if \<not> ut_kvp_fieldPresent kvp kConnectedKey then (p, [])
      else
        (let connected = ut_kvp_getBoolField kvp kConnectedKey;
             connectionChanged = (ps_connected (m_cachedStatus p) \<noteq> connected);
             status1 = (m_cachedStatus p)\<lparr>ps_connected := connected\<rparr>;
             status2 = (if \<not> connected then status1\<lparr>ps_detectedResolution := None\<rparr> else status1)
         in (p\<lparr>m_cachedStatus := status2\<rparr>,
             if connectionChanged then onConnectionChanged (m_controllerListener p) connected
             else [])))"

definition utSignalStatus :: "binder_env \<Rightarrow> kvp \<Rightarrow> port \<Rightarrow> port \<times> effect list" where
  "utSignalStatus env kvp p =
     (if \<not> ut_kvp_fieldPresent kvp kSignalStatusKey then (p, [])
      else case signalStatus_of (kvp_string kvp kSignalStatusKey) of
        None \<Rightarrow> (p, [])
      | Some signalStatus \<Rightarrow>
          (let strengthValue = makeInt64 (signalStrengthDbmFor signalStatus);
               qualityValue = makeInt32 (signalQualityFor signalStatus);
               status1 = (m_cachedStatus p)\<lparr>ps_signalStatus := signalStatus\<rparr>;
               status2 = (if signalStatus \<noteq> STABLE then status1\<lparr>ps_detectedResolution := None\<rparr>
                          else status1);
               p1 = p\<lparr>m_cachedStatus := status2\<rparr>;
               publishTelemetry = publishesTelemetry p1;
               p2 = (if publishTelemetry
                     then cacheWrite SIGNAL_QUALITY qualityValue
                            (cacheWrite SIGNAL_STRENGTH strengthValue p1)
                     else p1)
           in (p2,
               (if publishTelemetry
                then onPropertyChanged env (m_eventListeners p) SIGNAL_STRENGTH strengthValue @
                     onPropertyChanged env (m_eventListeners p) SIGNAL_QUALITY qualityValue
                else []) @
               onSignalStatusChanged (m_controllerListener p) signalStatus)))"

definition utVideoMode :: "kvp \<Rightarrow> port \<Rightarrow> port \<times> effect list" where
  "utVideoMode kvp p =
     (case (firstPresentKey kvp [Some kPixelWidthKey, Some kWidthKey],
            firstPresentKey kvp [Some kPixelHeightKey, Some kHeightKey],
            firstPresentKey kvp [Some kFrameRateInHzKey, Some kFrameRateKey, Some kFpsKey]) of
        (Some widthKey, Some heightKey, Some frameRateKey) \<Rightarrow>
          (let interlaced =
                 (case firstPresentKey kvp [Some kInterlacedKey, Some kIsInterlacedKey] of
                    Some interlacedKey \<Rightarrow> ut_kvp_getBoolField kvp interlacedKey
                  | None \<Rightarrow> False)
           in case parsed (makeVideoResolution
                     (cast_int32 (ut_kvp_getUInt32Field kvp widthKey))
                     (cast_int32 (ut_kvp_getUInt32Field kvp heightKey))
                     interlaced
                     (ut_kvp_getFloatField kvp frameRateKey)
                     (Some default_resolution)) of
                None \<Rightarrow> (p, [])
              | Some resolution \<Rightarrow>
                  (let p1 = p\<lparr>m_cachedStatus := (m_cachedStatus p)
                              \<lparr>ps_detectedResolution := Some resolution,
                               ps_signalStatus := STABLE\<rparr>\<rparr>;
                       p2 = (if publishesTelemetry p1
                             then cacheWrite SIGNAL_QUALITY (makeInt32 (signalQualityFor STABLE))
                                    (cacheWrite SIGNAL_STRENGTH
                                       (makeInt64 (signalStrengthDbmFor STABLE)) p1)
                             else p1)
                   in (p2, onVideoModeChanged (m_controllerListener p) resolution)))
      | _ \<Rightarrow> (p, []))"

definition utClearVideoMode :: "port \<Rightarrow> port \<times> effect list" where
  "utClearVideoMode p =
     (p\<lparr>m_cachedStatus := (m_cachedStatus p)\<lparr>ps_detectedResolution := None\<rparr>\<rparr>, [])"

definition utSetProperty :: "binder_env \<Rightarrow> kvp \<Rightarrow> port \<Rightarrow> port \<times> effect list" where
  "utSetProperty env kvp p =
     (if \<not> ut_kvp_fieldPresent kvp kPropertyKey \<or>
         (\<not> ut_kvp_fieldPresent kvp kIntValueKey \<and> \<not> ut_kvp_fieldPresent kvp kLongValueKey)
      then (p, [])
      else case portProperty_of (kvp_string kvp kPropertyKey) of
        None \<Rightarrow> (p, [])
      | Some property \<Rightarrow>
          (let v = (if ut_kvp_fieldPresent kvp kLongValueKey
                    then makeInt64 (cast_int64 (ut_kvp_getUInt64Field kvp kLongValueKey))
                    else makeInt32 (cast_int32 (ut_kvp_getUInt32Field kvp kIntValueKey)))
           in (cacheWrite property v p, onPropertyChanged env (m_eventListeners p) property v)))"

definition handleUTControlPlaneMessage ::
  "get_map_value \<Rightarrow> binder_env \<Rightarrow> kvp sp \<Rightarrow> port \<Rightarrow> port \<times> effect list" where
  "handleUTControlPlaneMessage getMapValue env instance p =
     (case instance of
        None \<Rightarrow> (p, [])
      | Some kvp \<Rightarrow>
          (case decodeCommand getMapValue (kvp_string kvp kUtCommandKey) of
             CONNECTION_STATUS \<Rightarrow> utConnection kvp p
           | SIGNAL_STATUS \<Rightarrow> utSignalStatus env kvp p
           | VIDEO_MODE \<Rightarrow> utVideoMode kvp p
           | CLEAR_VIDEO_MODE \<Rightarrow> utClearVideoMode p
           | SET_PROPERTY \<Rightarrow> utSetProperty env kvp p
           | _ \<Rightarrow> (p, [])))"

lemmas ut_defs =
  utConnection_def utSignalStatus_def utVideoMode_def utClearVideoMode_def utSetProperty_def

section \<open>Frame\<close>

text \<open>
  What a control-plane message may touch: the hardware part of the cached status and the
  property cache. Everything that belongs to the session is left alone.
\<close>

definition session_view :: "port \<Rightarrow>
  lifecycle \<times> controller sp \<times> iface sp \<times> iface sp list \<times> uint64 sp \<times> uint64 \<times> bool \<times> bool \<times> int" where
  "session_view p = (m_state p, m_controller p, m_controllerListener p, m_eventListeners p,
     m_controllerDeathRecipient p, m_sessionEpoch p, m_deathCleanupPending p,
     ps_active (m_cachedStatus p), ps_portId (m_cachedStatus p))"

lemma session_view_cacheWrite [simp]: "session_view (cacheWrite k v p) = session_view p"
  by (simp add: session_view_def)

lemma session_view_status:
  "ps_active s = ps_active (m_cachedStatus p) \<Longrightarrow> ps_portId s = ps_portId (m_cachedStatus p) \<Longrightarrow>
   session_view (p\<lparr>m_cachedStatus := s\<rparr>) = session_view p"
  by (simp add: session_view_def)

lemma utConnection_session: "session_view (fst (utConnection kvp p)) = session_view p"
  by (simp add: utConnection_def Let_def session_view_status)

lemma utSignalStatus_session: "session_view (fst (utSignalStatus env kvp p)) = session_view p"
  by (simp add: utSignalStatus_def Let_def session_view_status split: option.split)

lemma utVideoMode_session: "session_view (fst (utVideoMode kvp p)) = session_view p"
  by (simp add: utVideoMode_def Let_def session_view_status split: option.split)

lemma utClearVideoMode_session: "session_view (fst (utClearVideoMode p)) = session_view p"
  by (simp add: utClearVideoMode_def session_view_status)

lemma utSetProperty_session: "session_view (fst (utSetProperty env kvp p)) = session_view p"
  by (simp add: utSetProperty_def Let_def split: option.split)

lemmas ut_session_view =
  utConnection_session utSignalStatus_session utVideoMode_session utClearVideoMode_session
  utSetProperty_session

lemma handle_session_view:
  "session_view (fst (handleUTControlPlaneMessage gm env kvp p)) = session_view p"
  by (simp add: handleUTControlPlaneMessage_def ut_session_view split: option.split ut_command.split)

section \<open>The detected video mode\<close>

text \<open>
  A cached resolution is only ever reported for a stable signal, and its dimensions are
  positive.
\<close>

definition status_ok :: "port_status \<Rightarrow> bool" where
  "status_ok s \<longleftrightarrow>
     (\<forall>r. ps_detectedResolution s = Some r \<longrightarrow>
        ps_signalStatus s = STABLE \<and> 0 < vr_pixelWidth r \<and> 0 < vr_pixelHeight r)"

definition resolution_inv :: "port \<Rightarrow> bool" where
  "resolution_inv p \<longleftrightarrow> status_ok (m_cachedStatus p)"

lemma status_ok_simps [simp]:
  "status_ok (s\<lparr>ps_active := b\<rparr>) = status_ok s"
  "status_ok (s\<lparr>ps_connected := c\<rparr>) = status_ok s"
  "ps_detectedResolution s = None \<Longrightarrow> status_ok s"
  by (simp_all add: status_ok_def)

lemma resolution_inv_cacheWrite [simp]: "resolution_inv (cacheWrite k v p) = resolution_inv p"
  by (simp add: resolution_inv_def)

lemma resolution_inv_none:
  "ps_detectedResolution s = None \<Longrightarrow> resolution_inv (p\<lparr>m_cachedStatus := s\<rparr>)"
  by (simp add: resolution_inv_def)

lemma resolution_inv_same:
  "resolution_inv p \<Longrightarrow>
   ps_detectedResolution s = ps_detectedResolution (m_cachedStatus p) \<Longrightarrow>
   ps_signalStatus s = ps_signalStatus (m_cachedStatus p) \<or> ps_signalStatus s = STABLE \<Longrightarrow>
   resolution_inv (p\<lparr>m_cachedStatus := s\<rparr>)"
  by (auto simp: resolution_inv_def status_ok_def)

lemma resolution_inv_new:
  "ps_detectedResolution s = Some r \<Longrightarrow> ps_signalStatus s = STABLE \<Longrightarrow>
   0 < vr_pixelWidth r \<Longrightarrow> 0 < vr_pixelHeight r \<Longrightarrow> resolution_inv (p\<lparr>m_cachedStatus := s\<rparr>)"
  by (simp add: resolution_inv_def status_ok_def)

lemma parsed_resolution:
  "parsed (makeVideoResolution w h i r (Some old)) = Some res \<Longrightarrow>
   0 < vr_pixelWidth res \<and> 0 < vr_pixelHeight res"
  by (auto simp: parsed_def makeVideoResolution_def split: if_splits)

lemma utConnection_resolution: "resolution_inv p \<Longrightarrow> resolution_inv (fst (utConnection kvp p))"
  by (simp add: utConnection_def Let_def resolution_inv_none resolution_inv_same)

lemma utSignalStatus_resolution:
  "resolution_inv p \<Longrightarrow> resolution_inv (fst (utSignalStatus env kvp p))"
  by (simp add: utSignalStatus_def Let_def resolution_inv_none resolution_inv_same split: option.split)

lemma utVideoMode_resolution: "resolution_inv p \<Longrightarrow> resolution_inv (fst (utVideoMode kvp p))"
  by (auto simp: utVideoMode_def Let_def split: option.split
      intro!: resolution_inv_new dest!: parsed_resolution)

lemma utClearVideoMode_resolution: "resolution_inv (fst (utClearVideoMode p))"
  by (simp add: utClearVideoMode_def resolution_inv_none)

lemma utSetProperty_resolution: "resolution_inv p \<Longrightarrow> resolution_inv (fst (utSetProperty env kvp p))"
  by (simp add: utSetProperty_def Let_def split: option.split)

lemma handle_resolution_inv:
  "resolution_inv p \<Longrightarrow> resolution_inv (fst (handleUTControlPlaneMessage gm env kvp p))"
  by (simp add: handleUTControlPlaneMessage_def utConnection_resolution utSignalStatus_resolution
      utVideoMode_resolution utClearVideoMode_resolution utSetProperty_resolution
      split: option.split ut_command.split)

end
