(* ===== verification/Session_Spec.thy ===== *)
theory Session_Spec
  imports Port_Contract
begin

text \<open>
  The abstract session of a port and the proof that the session operations implement it.
  A session has a phase, an owner (the controller handed out), a number that identifies it,
  and it draws on a pool of started-port slots. The operations of \<open>Port_Session\<close> are
  related to it through an abstraction of the port and the process-wide count.
\<close>

section \<open>Abstract sessions\<close>

datatype phase = Closed | Opened | Running

record session =
  s_phase :: phase
  s_owner :: "controller sp"
  s_number :: uint64
  s_used :: int
  s_limit :: int

datatype request =
    Open iface
  | Close controller
  | Start
  | Stop
  | ResetMetrics
  | ClientDied uint64

datatype reply =
    OpenReply status "controller sp"
  | CloseReply status bool
  | StatusReply status
  | NoReply

definition client_gone :: "binder_env \<Rightarrow> iface \<Rightarrow> bool" where
  "client_gone env l =
     (case asBinder env l of None \<Rightarrow> False | Some b \<Rightarrow> remoteBinder env b \<and> \<not> linkToDeathOk env b)"

definition end_session :: "session \<Rightarrow> session" where
  "end_session s = s\<lparr>s_phase := Closed, s_owner := None, s_number := s_number s + 1\<rparr>"

fun spec_step :: "binder_env \<times> request \<Rightarrow> session \<Rightarrow> reply \<times> session" where
  "spec_step (env, Open l) s =
     (if s_phase s \<noteq> Closed then (OpenReply (StatusEx EX_ILLEGAL_STATE) None, s)
      else if client_gone env l
      then (OpenReply (StatusEx EX_ILLEGAL_STATE) None, s\<lparr>s_number := s_number s + 2\<rparr>)
      else (OpenReply StatusOk (Some (newController env)),
            s\<lparr>s_phase := Opened, s_owner := Some (newController env), s_number := s_number s + 1\<rparr>))"
| "spec_step (env, Close c) s =
     (if s_phase s \<noteq> Opened then (CloseReply (StatusEx EX_ILLEGAL_STATE) False, s)
      else if s_owner s \<noteq> Some c then (CloseReply StatusOk False, s)
      else (CloseReply StatusOk True, end_session s))"
| "spec_step (env, Start) s =
     (if s_phase s = Opened \<and> s_used s < s_limit s
      then (StatusReply StatusOk, s\<lparr>s_phase := Running, s_used := s_used s + 1\<rparr>)
      else (StatusReply (StatusEx EX_ILLEGAL_STATE), s))"
| "spec_step (env, Stop) s =
     (if s_phase s = Running
      then (StatusReply StatusOk, s\<lparr>s_phase := Opened, s_used := s_used s - 1\<rparr>)
      else (StatusReply (StatusEx EX_ILLEGAL_STATE), s))"
| "spec_step (env, ResetMetrics) s =
     (if s_phase s = Running then (StatusReply StatusOk, s)
      else (StatusReply (StatusEx EX_ILLEGAL_STATE), s))"
| "spec_step (env, ClientDied e) s =
     (if e \<noteq> s_number s \<or> s_phase s = Closed then (NoReply, s)
      else if s_phase s = Running
      then (NoReply, end_session (s\<lparr>s_used := s_used s - 1\<rparr>))
      else (NoReply, end_session s))"

section \<open>The concrete machine\<close>

fun serve :: "binder_env \<times> request \<Rightarrow> port \<times> globals \<Rightarrow> (reply \<times> effect list) \<times> (port \<times> globals)" where
  "serve (env, Open l) (p, g) =
     (let (st, ret, p', g', es) = open_port env (Some l) (Some None) p g
      in ((OpenReply st (Option.bind ret id), es), (p', g')))"
| "serve (env, Close c) (p, g) =
     (let (st, ret, p', es) = close_port env (Some c) (Some False) p
      in ((CloseReply st (ret = Some True), es), (p', g)))"
| "serve (env, Start) (p, g) =
     (let (st, p', g', es) = startFromController env p g in ((StatusReply st, es), (p', g')))"
| "serve (env, Stop) (p, g) =
     (let (st, p', g', es) = stopFromController env p g in ((StatusReply st, es), (p', g')))"
| "serve (env, ResetMetrics) (p, g) =
     (let (st, p', es) = resetMetricsFromController env p in ((StatusReply st, es), (p', g)))"
| "serve (env, ClientDied e) (p, g) =
     (let (p', g', es) = binderDied env True e p g in ((NoReply, es), (p', g')))"

definition serve_reply :: "binder_env \<times> request \<Rightarrow> port \<times> globals \<Rightarrow> reply \<times> (port \<times> globals)" where
  "serve_reply r s = (fst (fst (serve r s)), snd (serve r s))"

fun phase_of :: "lifecycle \<Rightarrow> phase" where
  "phase_of CLOSED = Closed"
| "phase_of OPENING = Closed"
| "phase_of STARTING = Running"
| "phase_of STARTED = Running"
| "phase_of STOPPING = Running"
| "phase_of _ = Opened"

definition abs_session :: "port \<times> globals \<Rightarrow> session" where
  "abs_session s =
     \<lparr>s_phase = phase_of (m_state (fst s)), s_owner = m_controller (fst s),
      s_number = m_sessionEpoch (fst s), s_used = g_startedPorts (snd s),
      s_limit = g_maxStartedPorts (snd s)\<rparr>"

text \<open>The states between operations: stable, nothing deferred, slots accounted for.\<close>

definition settled :: "port \<times> globals \<Rightarrow> bool" where
  "settled s \<longleftrightarrow>
     port_inv (fst s) \<and> stable (m_state (fst s)) \<and> \<not> m_deathCleanupPending (fst s) \<and>
     0 \<le> g_startedPorts (snd s) \<and> g_startedPorts (snd s) \<le> g_maxStartedPorts (snd s) \<and>
     (m_state (fst s) = STARTED \<longrightarrow> 0 < g_startedPorts (snd s))"

section \<open>Sections on settled ports\<close>

lemma setState_simps [simp]:
  "m_state (fst (setStateLocked s p)) = s"
  "fst (snd (setStateLocked s p)) = m_state p"
  "snd (snd (setStateLocked s p)) = m_eventListeners p"
  "m_controller (fst (setStateLocked s p)) = m_controller p"
  "m_controllerListener (fst (setStateLocked s p)) = m_controllerListener p"
  "m_controllerDeathRecipient (fst (setStateLocked s p)) = m_controllerDeathRecipient p"
  "m_sessionEpoch (fst (setStateLocked s p)) = m_sessionEpoch p"
  "m_deathCleanupPending (fst (setStateLocked s p)) = m_deathCleanupPending p"
  "m_eventListeners (fst (setStateLocked s p)) = m_eventListeners p"
  "m_cachedProperties (fst (setStateLocked s p)) = m_cachedProperties p"
  by (simp_all add: setStateLocked_def)

lemma run_pending_none:
  "\<not> m_deathCleanupPending p \<Longrightarrow> runPendingDeathCleanupIfNeeded env p g = (p, g, [])"
  by (simp add: runPendingDeathCleanupIfNeeded_def takePending_def)

lemma stable_cases: "stable s \<longleftrightarrow> s = CLOSED \<or> s = READY \<or> s = STARTED"
  by (cases s) auto

text \<open>The result of the two closing sections from READY, and of the death clean-up.\<close>

definition closed_port :: "port \<Rightarrow> port" where
  "closed_port p = fst (cleanupFinish (fst (setStateLocked CLOSING p)))"

lemma closed_port_simps [simp]:
  "m_state (closed_port p) = CLOSED"
  "m_controller (closed_port p) = None"
  "m_controllerListener (closed_port p) = None"
  "m_controllerDeathRecipient (closed_port p) = None"
  "m_sessionEpoch (closed_port p) = m_sessionEpoch p + 1"
  "m_deathCleanupPending (closed_port p) = False"
  "m_eventListeners (closed_port p) = m_eventListeners p"
  by (simp_all add: closed_port_def cleanupFinish_def setStateLocked_def Let_def)

lemma closed_port_inv: "port_inv p \<Longrightarrow> m_state p = READY \<Longrightarrow> port_inv (closed_port p)"
  by (simp add: closed_port_def inv_cleanupFinish inv_setState)

lemma closing_ready:
  "m_state p = READY \<Longrightarrow> m_sessionEpoch p = e \<Longrightarrow>
   cleanupClosing env e p g =
     (closed_port p, g,
      onStateChanged env (m_eventListeners p) READY CLOSING @
      onStateChanged env (m_eventListeners p) CLOSING CLOSED)"
  by (simp add: cleanupClosing_def cleanupCloseStage_def closed_port_def cleanupFinish_def
      setStateLocked_def Let_def)

lemma closeFinish_closed:
  "closeFinish env (fst (setStateLocked CLOSING p)) =
     (closed_port p, CLOSING, m_eventListeners p,
      (case m_controllerListener p of None \<Rightarrow> None | Some l \<Rightarrow> asBinder env l),
      m_controllerDeathRecipient p)"
  by (simp add: closeFinish_def closed_port_def cleanupFinish_def setStateLocked_def Let_def)

definition stopped_port :: "port \<Rightarrow> port" where
  "stopped_port p = fst (setStateLocked READY (fst (setStateLocked STOPPING p)))"

lemma stopped_port_simps [simp]:
  "m_state (stopped_port p) = READY"
  "m_controller (stopped_port p) = m_controller p"
  "m_controllerListener (stopped_port p) = m_controllerListener p"
  "m_sessionEpoch (stopped_port p) = m_sessionEpoch p"
  "m_deathCleanupPending (stopped_port p) = m_deathCleanupPending p"
  "m_eventListeners (stopped_port p) = m_eventListeners p"
  by (simp_all add: stopped_port_def)

lemma stopped_port_inv: "port_inv p \<Longrightarrow> m_state p = STARTED \<Longrightarrow> port_inv (stopped_port p)"
  by (simp add: stopped_port_def inv_setState)

section \<open>The operations on settled ports\<close>

definition opened_port :: "binder_env \<Rightarrow> iface \<Rightarrow> port \<Rightarrow> port" where
  "opened_port env l p =
     p\<lparr>m_state := READY,
       m_cachedStatus := (m_cachedStatus p)\<lparr>ps_active := False\<rparr>,
       m_controllerListener := Some l, m_controller := Some (newController env),
       m_sessionEpoch := m_sessionEpoch p + 1, m_deathCleanupPending := False,
       m_controllerDeathRecipient :=
         (if observesDeath env l then Some (m_sessionEpoch p + 1) else None)\<rparr>"

definition rolled_back_port :: "binder_env \<Rightarrow> iface \<Rightarrow> port \<Rightarrow> port" where
  "rolled_back_port env l p =
     (case openEnter env l True p of Some (p1, r) \<Rightarrow> openRollback p1 | None \<Rightarrow> p)"

lemma linkFails_iff:
  "linkFails env l (if observesDeath env l then Some e else None) = client_gone env l"
  by (simp add: linkFails_def client_gone_def observesDeath_def split: option.splits)

lemma open_closed:
  assumes "m_state p = CLOSED"
  shows "open_port env (Some l) (Some old) p g =
    (if client_gone env l
     then (StatusEx EX_ILLEGAL_STATE, Some None, rolled_back_port env l p, g,
           linkEffects env l (Some (m_sessionEpoch p + 1)))
     else (StatusOk, Some (Some (newController env)), opened_port env l p, g,
           linkEffects env l (if observesDeath env l then Some (m_sessionEpoch p + 1) else None) @
           onStateChanged env (m_eventListeners p) CLOSED OPENING @
           onConnectionChanged (Some l) (ps_connected (m_cachedStatus p)) @
           onStateChanged env (m_eventListeners p) OPENING READY))"
proof -
  have gone: "client_gone env l \<Longrightarrow> observesDeath env l"
    by (simp add: client_gone_def observesDeath_def split: option.splits)
  show ?thesis
    using assms gone linkFails_iff [of env l "m_sessionEpoch p + 1"]
    by (auto simp: open_port_def openEnter_def setStateLocked_def Let_def run_pending_none
        opened_port_def rolled_back_port_def)
qed

lemma open_not_closed:
  "m_state p \<noteq> CLOSED \<Longrightarrow>
   open_port env (Some l) (Some old) p g = (StatusEx EX_ILLEGAL_STATE, Some old, p, g, [])"
  by (simp add: open_port_def openEnter_def)

lemma close_ready:
  "m_state p = READY \<Longrightarrow> m_controller p = Some c \<Longrightarrow>
   close_port env (Some c) (Some old) p =
     (StatusOk, Some True, closed_port p,
      onStateChanged env (m_eventListeners p) READY CLOSING @
      unlinkEffects (case m_controllerListener p of None \<Rightarrow> None | Some l \<Rightarrow> asBinder env l)
        (m_controllerDeathRecipient p) @
      onStateChanged env (m_eventListeners p) CLOSING CLOSED)"
  using closeFinish_closed [of env p]
  by (simp add: close_port_def closeEnter_def setStateLocked_def Let_def)

lemma close_foreign:
  "m_state p = READY \<Longrightarrow> m_controller p \<noteq> Some c \<Longrightarrow>
   close_port env (Some c) (Some old) p = (StatusOk, Some False, p, [])"
  by (simp add: close_port_def closeEnter_def)

lemma close_not_ready:
  "m_state p \<noteq> READY \<Longrightarrow>
   close_port env (Some c) (Some old) p = (StatusEx EX_ILLEGAL_STATE, Some old, p, [])"
  by (simp add: close_port_def closeEnter_def)

definition started_port :: "binder_env \<Rightarrow> port \<Rightarrow> port" where
  "started_port env p =
     fst (startBaseline env (fst (setStateLocked STARTED (fst (setStateLocked STARTING p)))))"

lemma started_port_simps [simp]:
  "m_state (started_port env p) = STARTED"
  "m_controller (started_port env p) = m_controller p"
  "m_controllerListener (started_port env p) = m_controllerListener p"
  "m_sessionEpoch (started_port env p) = m_sessionEpoch p"
  "m_deathCleanupPending (started_port env p) = m_deathCleanupPending p"
  "m_eventListeners (started_port env p) = m_eventListeners p"
  "m_cachedProperties (started_port env p) = m_cachedProperties p"
  by (simp_all add: started_port_def startBaseline_def)

lemma started_port_inv: "port_inv p \<Longrightarrow> m_state p = READY \<Longrightarrow> port_inv (started_port env p)"
  by (simp add: started_port_def inv_startBaseline inv_setState)

definition cached_or :: "port_property \<Rightarrow> property_value \<Rightarrow> port \<Rightarrow> property_value" where
  "cached_or k dflt p = (case m_cachedProperties p k of Some v \<Rightarrow> v | None \<Rightarrow> dflt)"

lemma start_ready:
  assumes "m_state p = READY" and "\<not> m_deathCleanupPending p"
    and "g_startedPorts g < g_maxStartedPorts g"
  shows "startFromController env p g =
    (StatusOk, started_port env p, g\<lparr>g_startedPorts := g_startedPorts g + 1\<rparr>,
     onStateChanged env (m_eventListeners p) READY STARTING @
     onSignalStatusChanged (m_controllerListener p) (ps_signalStatus (m_cachedStatus p)) @
     onStateChanged env (m_eventListeners p) STARTING STARTED @
     onPropertyChanged env (m_eventListeners p) SIGNAL_STRENGTH (cached_or SIGNAL_STRENGTH (makeInt64 0) p) @
     onPropertyChanged env (m_eventListeners p) SIGNAL_QUALITY (cached_or SIGNAL_QUALITY (makeInt32 0) p))"
  using assms
  by (simp add: startFromController_def acquireStartedSlot_def startEnter_def startReadSignal_def
      startBaseline_def setStateLocked_def Let_def run_pending_none started_port_def cached_or_def)

lemma start_refused:
  "m_state p \<noteq> READY \<or> g_maxStartedPorts g \<le> g_startedPorts g \<Longrightarrow> 0 \<le> g_startedPorts g \<Longrightarrow>
   startFromController env p g = (StatusEx EX_ILLEGAL_STATE, p, g, [])"
  by (auto simp: startFromController_def acquireStartedSlot_def startEnter_def releaseStartedSlot_def)

lemma stop_started:
  assumes "m_state p = STARTED" and "\<not> m_deathCleanupPending p" and "0 < g_startedPorts g"
  shows "stopFromController env p g =
    (StatusOk, stopped_port p, g\<lparr>g_startedPorts := g_startedPorts g - 1\<rparr>,
     onStateChanged env (m_eventListeners p) STARTED STOPPING @
     onStateChanged env (m_eventListeners p) STOPPING READY)"
  using assms
  by (simp add: stopFromController_def stopEnter_def setStateLocked_def Let_def run_pending_none
      stopped_port_def release_equation)

lemma stop_refused:
  "m_state p \<noteq> STARTED \<Longrightarrow> stopFromController env p g = (StatusEx EX_ILLEGAL_STATE, p, g, [])"
  by (simp add: stopFromController_def stopEnter_def)

lemma death_stale:
  "m_sessionEpoch p \<noteq> e \<or> m_state p = CLOSED \<Longrightarrow>
   cleanupAfterControllerDeath env e p g = (p, g, [])"
  by (auto simp: cleanupAfterControllerDeath_def cleanupStopStage_def)

lemma death_ready:
  "m_state p = READY \<Longrightarrow> m_sessionEpoch p = e \<Longrightarrow>
   cleanupAfterControllerDeath env e p g =
     (closed_port p, g,
      onStateChanged env (m_eventListeners p) READY CLOSING @
      onStateChanged env (m_eventListeners p) CLOSING CLOSED)"
  by (simp add: cleanupAfterControllerDeath_def cleanupStopStage_def closing_ready)

lemma death_started:
  assumes "m_state p = STARTED" and "m_sessionEpoch p = e" and "0 < g_startedPorts g"
  shows "cleanupAfterControllerDeath env e p g =
    (closed_port (stopped_port p), g\<lparr>g_startedPorts := g_startedPorts g - 1\<rparr>,
     onStateChanged env (m_eventListeners p) STARTED STOPPING @
     onStateChanged env (m_eventListeners p) STOPPING READY @
     onStateChanged env (m_eventListeners p) READY CLOSING @
     onStateChanged env (m_eventListeners p) CLOSING CLOSED)"
  using assms closing_ready [of "stopped_port p" e env]
  by (simp add: cleanupAfterControllerDeath_def cleanupStopStage_def setStateLocked_def Let_def
      stopped_port_def release_equation)

lemmas settled_ops =
  open_closed open_not_closed close_ready close_foreign close_not_ready start_ready start_refused
  stop_started stop_refused death_stale death_ready death_started

section \<open>Refinement\<close>

lemma opened_port_simps [simp]:
  "m_state (opened_port env l p) = READY"
  "m_controller (opened_port env l p) = Some (newController env)"
  "m_controllerListener (opened_port env l p) = Some l"
  "m_sessionEpoch (opened_port env l p) = m_sessionEpoch p + 1"
  "m_deathCleanupPending (opened_port env l p) = False"
  "m_eventListeners (opened_port env l p) = m_eventListeners p"
  by (simp_all add: opened_port_def)

lemma opened_port_inv: "port_inv p \<Longrightarrow> port_inv (opened_port env l p)"
  by (simp add: port_inv_def opened_port_def resolution_inv_def)

lemma rolled_back_simps:
  assumes "m_state p = CLOSED"
  shows "m_state (rolled_back_port env l p) = CLOSED"
    and "m_controller (rolled_back_port env l p) = None"
    and "m_sessionEpoch (rolled_back_port env l p) = m_sessionEpoch p + 2"
    and "m_deathCleanupPending (rolled_back_port env l p) = False"
    and "m_eventListeners (rolled_back_port env l p) = m_eventListeners p"
  using assms
  by (simp_all add: rolled_back_port_def openEnter_def openRollback_def setStateLocked_def Let_def)

lemma rolled_back_inv: "port_inv p \<Longrightarrow> port_inv (rolled_back_port env l p)"
  by (auto simp: rolled_back_port_def split: option.split dest: inv_openEnter intro: inv_openRollback)

lemma abs_session_simps [simp]:
  "s_phase (abs_session s) = phase_of (m_state (fst s))"
  "s_owner (abs_session s) = m_controller (fst s)"
  "s_number (abs_session s) = m_sessionEpoch (fst s)"
  "s_used (abs_session s) = g_startedPorts (snd s)"
  "s_limit (abs_session s) = g_maxStartedPorts (snd s)"
  by (simp_all add: abs_session_def)

lemma session_eqI:
  "s_phase s = s_phase t \<Longrightarrow> s_owner s = s_owner t \<Longrightarrow> s_number s = s_number t \<Longrightarrow>
   s_used s = s_used t \<Longrightarrow> s_limit s = s_limit t \<Longrightarrow> (s :: session) = t"
  by (cases s; cases t) simp

definition refines :: "binder_env \<times> request \<Rightarrow> port \<times> globals \<Rightarrow> bool" where
  "refines r s \<longleftrightarrow>
     settled (snd (serve_reply r s)) \<and>
     spec_step r (abs_session s) = (fst (serve_reply r s), abs_session (snd (serve_reply r s)))"

lemma settledD:
  assumes "settled (p, g)"
  shows "port_inv p" and "m_state p = CLOSED \<or> m_state p = READY \<or> m_state p = STARTED"
    and "\<not> m_deathCleanupPending p" and "0 \<le> g_startedPorts g"
    and "g_startedPorts g \<le> g_maxStartedPorts g"
    and "m_state p = STARTED \<Longrightarrow> 0 < g_startedPorts g"
  using assms by (auto simp: settled_def stable_cases)

lemma settledI:
  "port_inv p \<Longrightarrow> m_state p = CLOSED \<or> m_state p = READY \<or> m_state p = STARTED \<Longrightarrow>
   \<not> m_deathCleanupPending p \<Longrightarrow> 0 \<le> g_startedPorts g \<Longrightarrow>
   g_startedPorts g \<le> g_maxStartedPorts g \<Longrightarrow>
   (m_state p = STARTED \<Longrightarrow> 0 < g_startedPorts g) \<Longrightarrow> settled (p, g)"
  by (auto simp: settled_def stable_cases)

lemmas refines_defs = refines_def serve_reply_def end_session_def

lemma phase_closed:
  "stable s \<Longrightarrow> phase_of s = Closed \<longleftrightarrow> s = CLOSED"
  "stable s \<Longrightarrow> phase_of s = Opened \<longleftrightarrow> s = READY"
  "stable s \<Longrightarrow> phase_of s = Running \<longleftrightarrow> s = STARTED"
  by (cases s; simp)+

lemma refines_open:
  assumes "settled (p, g)"
  shows "refines (env, Open l) (p, g)"
proof (cases "m_state p = CLOSED")
  case True
  note facts = settledD [OF assms]
  show ?thesis
  proof (cases "client_gone env l")
    case gone: True
    have "settled (rolled_back_port env l p, g)"
      using facts True by (intro settledI rolled_back_inv) (simp_all add: rolled_back_simps)
    moreover have "m_controller p = None"
      using facts(1) True by (simp add: port_inv_def)
    ultimately show ?thesis
      using gone True by (simp add: refines_defs open_closed rolled_back_simps abs_session_def)
  next
    case False
    have "settled (opened_port env l p, g)"
      using facts by (intro settledI opened_port_inv) simp_all
    with False True show ?thesis
      by (auto simp: refines_defs open_closed intro: session_eqI)
  qed
next
  case False
  with settledD(2) [OF assms] have "phase_of (m_state p) \<noteq> Closed" by auto
  with False assms show ?thesis by (simp add: refines_defs open_not_closed)
qed

lemma refines_close:
  assumes "settled (p, g)"
  shows "refines (env, Close c) (p, g)"
proof (cases "m_state p = READY \<and> m_controller p = Some c")
  case True
  have "settled (closed_port p, g)"
    using settledD [OF assms] True by (intro settledI closed_port_inv) simp_all
  with True show ?thesis
    by (auto simp: refines_defs close_ready intro: session_eqI)
next
  case False
  have "m_state p \<noteq> READY \<Longrightarrow> phase_of (m_state p) \<noteq> Opened"
    using settledD(2) [OF assms] by auto
  with False assms show ?thesis
    by (cases "m_state p = READY") (auto simp: refines_defs close_foreign close_not_ready)
qed

lemma refines_start:
  assumes "settled (p, g)"
  shows "refines (env, Start) (p, g)"
proof (cases "m_state p = READY \<and> g_startedPorts g < g_maxStartedPorts g")
  case True
  then have "settled (started_port env p, g\<lparr>g_startedPorts := g_startedPorts g + 1\<rparr>)"
    using settledD [OF assms] by (intro settledI started_port_inv) simp_all
  with True settledD [OF assms] show ?thesis
    by (auto simp: refines_defs start_ready intro: session_eqI)
next
  case False
  then have r: "m_state p \<noteq> READY \<or> g_maxStartedPorts g \<le> g_startedPorts g" by auto
  have "m_state p \<noteq> READY \<Longrightarrow> phase_of (m_state p) \<noteq> Opened"
    using settledD(2) [OF assms] by auto
  with r assms show ?thesis
    by (auto simp: refines_defs start_refused settledD)
qed

lemma refines_stop:
  assumes "settled (p, g)"
  shows "refines (env, Stop) (p, g)"
proof (cases "m_state p = STARTED")
  case True
  then have "settled (stopped_port p, g\<lparr>g_startedPorts := g_startedPorts g - 1\<rparr>)"
    using settledD [OF assms] by (intro settledI stopped_port_inv) simp_all
  with True settledD [OF assms] show ?thesis
    by (auto simp: refines_defs stop_started intro: session_eqI)
next
  case False
  with settledD(2) [OF assms] have "phase_of (m_state p) \<noteq> Running" by auto
  with False assms show ?thesis by (simp add: refines_defs stop_refused)
qed

lemma refines_reset:
  assumes "settled (p, g)"
  shows "refines (env, ResetMetrics) (p, g)"
proof (cases "m_state p = STARTED")
  case True
  have "settled (fst (snd (resetMetricsFromController env p)), g)"
    using settledD [OF assms] True
    by (intro settledI inv_resetMetrics) (simp_all add: resetMetricsFromController_def Let_def)
  with True show ?thesis
    by (auto simp: refines_defs resetMetricsFromController_def Let_def intro: session_eqI)
next
  case False
  with settledD(2) [OF assms] have "phase_of (m_state p) \<noteq> Running" by auto
  with False assms show ?thesis
    by (simp add: refines_defs resetMetricsFromController_def Let_def)
qed

lemma refines_death:
  assumes "settled (p, g)"
  shows "refines (env, ClientDied e) (p, g)"
proof (cases "m_sessionEpoch p \<noteq> e \<or> m_state p = CLOSED")
  case True
  with assms show ?thesis
    by (auto simp: refines_defs binderDied_def death_stale)
next
  case False
  note facts = settledD [OF assms]
  from False facts(2) consider "m_state p = READY" | "m_state p = STARTED" by auto
  then show ?thesis
  proof cases
    case 1
    then have "settled (closed_port p, g)"
      using facts by (intro settledI closed_port_inv) simp_all
    with 1 False show ?thesis
      by (auto simp: refines_defs binderDied_def death_ready intro: session_eqI)
  next
    case 2
    then have "settled (closed_port (stopped_port p), g\<lparr>g_startedPorts := g_startedPorts g - 1\<rparr>)"
      using facts by (intro settledI closed_port_inv stopped_port_inv) simp_all
    with 2 False facts show ?thesis
      by (auto simp: refines_defs binderDied_def death_started intro: session_eqI)
  qed
qed

lemma serve_refines: "settled s \<Longrightarrow> refines r s"
  by (cases s; cases r; cases "snd r")
    (auto simp: refines_open refines_close refines_start refines_stop refines_reset refines_death)

interpretation session_sim: simulation serve_reply spec_step abs_session settled
  using serve_refines by unfold_locales (auto simp: refines_def)

section \<open>What observers see\<close>

text \<open>
  Any single request leaves a listener that is registered once with an unbroken path of
  lifecycle edges from the state before to the state after, and leaves the registry alone.
\<close>

lemma seen_link [effect_simps]:
  "seen_edges l (linkEffects env c r) = []" "seen_updates l (linkEffects env c r) = []"
  "seen_edges l (unlinkEffects b r) = []" "seen_updates l (unlinkEffects b r) = []"
  "controller_callbacks (linkEffects env c r) = []" "controller_callbacks (unlinkEffects b r) = []"
  by (auto simp: linkEffects_def unlinkEffects_def effect_simps split: option.splits)

definition observed :: "iface \<Rightarrow> binder_env \<times> request \<Rightarrow> port \<times> globals \<Rightarrow> bool" where
  "observed l r s \<longleftrightarrow>
     edge_path (m_state (fst s)) (seen_edges l (snd (fst (serve r s)))) (m_state (fst (snd (serve r s)))) \<and>
     m_eventListeners (fst (snd (serve r s))) = m_eventListeners (fst s)"

lemma serve_observed:
  assumes "settled (p, g)" and one: "count_list (m_eventListeners p) (Some l) = 1"
  shows "observed l (env, r) (p, g)"
proof -
  note facts = settledD [OF assms(1)]
  show ?thesis
  proof (cases r)
    case (Open c)
    then show ?thesis
      using facts one by (cases "m_state p = CLOSED"; cases "client_gone env c")
        (auto simp: observed_def open_closed open_not_closed effect_simps rolled_back_simps)
  next
    case (Close c)
    then show ?thesis
      using facts one by (cases "m_state p = READY"; cases "m_controller p = Some c")
        (auto simp: observed_def close_ready close_foreign close_not_ready effect_simps)
  next
    case Start
    then show ?thesis
      using facts one by (cases "m_state p = READY \<and> g_startedPorts g < g_maxStartedPorts g")
        (auto simp: observed_def start_ready start_refused effect_simps not_less)
  next
    case Stop
    then show ?thesis
      using facts one by (cases "m_state p = STARTED")
        (auto simp: observed_def stop_started stop_refused effect_simps)
  next
    case ResetMetrics
    then show ?thesis
      by (auto simp: observed_def resetMetricsFromController_def Let_def effect_simps)
  next
    case (ClientDied e)
    then show ?thesis
      using facts one by (cases "m_sessionEpoch p \<noteq> e \<or> m_state p = CLOSED"; cases "m_state p = READY")
        (auto simp: observed_def binderDied_def death_stale death_ready death_started effect_simps)
  qed
qed

definition refused :: "reply \<Rightarrow> bool" where
  "refused r \<longleftrightarrow>
     (case r of
        OpenReply st h \<Rightarrow> st \<noteq> StatusOk
      | CloseReply st b \<Rightarrow> st \<noteq> StatusOk
      | StatusReply st \<Rightarrow> st \<noteq> StatusOk
      | NoReply \<Rightarrow> False)"

section \<open>Properties\<close>

lemma settled_initial: "0 \<le> used \<Longrightarrow> used \<le> limit \<Longrightarrow>
   settled (CompositeInputPort i, \<lparr>g_startedPorts = used, g_maxStartedPorts = limit\<rparr>)"
  by (simp add: settled_def inv_construct) (simp add: CompositeInputPort_def)

text \<open>
  C3: the session operations implement the abstract session. Any sequence of requests to a
  settled port, each run to completion, gives the replies of the abstract session and leaves
  the port in a settled state that abstracts to the abstract result.
\<close>

theorem session_refinement:
  assumes "settled s"
  shows "run_machine spec_step rs (abs_session s) =
      (fst (run_machine serve_reply rs s), abs_session (snd (run_machine serve_reply rs s))) \<and>
    settled (snd (run_machine serve_reply rs s))"
  using assms session_sim.run_commutes session_sim.ok_run by blast

theorem session_refinement_witness:
  "\<forall>env. let s = (CompositeInputPort 0, initial_globals); rs = [(env, Start), (env, Stop)] in
     abs_session (snd (run_machine serve_reply rs s)) = abs_session s \<and>
     settled (snd (run_machine serve_reply rs s))"
proof
  fix env
  have "settled (CompositeInputPort 0, initial_globals)"
    using settled_initial [of 0 1 0] by (simp add: initial_globals_def)
  from session_refinement [OF this, of "[(env, Start), (env, Stop)]"]
  show "let s = (CompositeInputPort 0, initial_globals); rs = [(env, Start), (env, Stop)] in
     abs_session (snd (run_machine serve_reply rs s)) = abs_session s \<and>
     settled (snd (run_machine serve_reply rs s))"
    by (simp add: Let_def case_prod_unfold abs_session_def CompositeInputPort_def)
qed

text \<open>
  C10: an observer that is registered once sees, over any sequence of requests, an unbroken
  path of legal lifecycle edges from the first state to the last.
\<close>

theorem observer_sees_legal_path:
  assumes "settled s" and "count_list (m_eventListeners (fst s)) (Some l) = 1"
  shows "edge_path (m_state (fst s))
      (concat (map (seen_edges l \<circ> snd) (fst (run_machine serve rs s))))
      (m_state (fst (snd (run_machine serve rs s))))"
  using assms
proof (induction rs arbitrary: s)
  case (Cons r rs)
  obtain p g where s: "s = (p, g)" by fastforce
  obtain env q where r: "r = (env, q)" by fastforce
  have obs: "observed l r s"
    using Cons.prems by (simp add: s r serve_observed)
  have "settled (snd (serve r s))"
    using serve_refines [OF Cons.prems(1), of r] by (simp add: refines_def serve_reply_def)
  moreover have "count_list (m_eventListeners (fst (snd (serve r s)))) (Some l) = 1"
    using obs Cons.prems(2) by (simp add: observed_def)
  ultimately have "edge_path (m_state (fst (snd (serve r s))))
      (concat (map (seen_edges l \<circ> snd) (fst (run_machine serve rs (snd (serve r s))))))
      (m_state (fst (snd (run_machine serve rs (snd (serve r s))))))"
    by (rule Cons.IH)
  with obs show ?case
    by (auto simp: observed_def edge_path_append case_prod_unfold Let_def comp_def)
qed simp

theorem observer_sees_legal_path_witness:
  "\<exists>p. count_list (m_eventListeners p) (Some 7) = 1 \<and>
     (\<forall>rs. edge_path CLOSED
        (concat (map (seen_edges 7 \<circ> snd) (fst (run_machine serve rs (p, initial_globals)))))
        (m_state (fst (snd (run_machine serve rs (p, initial_globals))))))"
proof -
  let ?p = "(CompositeInputPort 0)\<lparr>m_eventListeners := [Some 7]\<rparr>"
  have "settled (?p, initial_globals)"
    by (simp add: settled_def port_inv_def CompositeInputPort_def resolution_inv_def initial_globals_def)
  moreover have "count_list (m_eventListeners ?p) (Some 7) = 1" by simp
  ultimately show ?thesis
    using observer_sees_legal_path [of "(?p, initial_globals)" 7]
    by (intro exI [of _ ?p]) (simp add: CompositeInputPort_def)
qed

text \<open>
  \<open>start\<close> from READY with a free slot publishes, in this order: the STARTING edge, one
  signal status to the controlling client, the STARTED edge, and the two cached signal
  telemetry values; it takes exactly one slot.
\<close>

lemma start_event_order:
  assumes "settled (p, g)" and "m_state p = READY" and "g_startedPorts g < g_maxStartedPorts g"
    and "count_list (m_eventListeners p) (Some l) = 1"
  shows "let (st, p', g', es) = startFromController env p g in
     st = StatusOk \<and> m_state p' = STARTED \<and> g_startedPorts g' = g_startedPorts g + 1 \<and>
     seen_edges l es = [(READY, STARTING), (STARTING, STARTED)] \<and>
     seen_updates l es =
       [(SIGNAL_STRENGTH, cached_or SIGNAL_STRENGTH (makeInt64 0) p),
        (SIGNAL_QUALITY, cached_or SIGNAL_QUALITY (makeInt32 0) p)] \<and>
     controller_callbacks es =
       onSignalStatusChanged (m_controllerListener p) (ps_signalStatus (m_cachedStatus p)) \<and>
     (\<exists>c. m_controllerListener p = Some c \<and>
          controller_callbacks es = [SignalStatusChanged c (ps_signalStatus (m_cachedStatus p))])"
proof -
  from assms(1,2) obtain c where "m_controllerListener p = Some c"
    by (auto simp: settled_def port_inv_def)
  then show ?thesis
    using assms by (simp add: start_ready settledD effect_simps onSignalStatusChanged_def)
qed

text \<open>
  C27: a refused lifecycle request is without effect: unless an \<open>open\<close> loses its client
  while linking, a request that is answered with an exception leaves the port and the slot
  count as they were and calls nobody back.
\<close>

theorem refused_request_has_no_effect:
  assumes "settled s" and "refused (fst (fst (serve (env, r) s)))"
  shows "(snd (serve (env, r) s) = s \<and> snd (fst (serve (env, r) s)) = []) \<or>
    (\<exists>l. r = Open l \<and> m_state (fst s) = CLOSED \<and> client_gone env l)"
proof -
  obtain p g where s: "s = (p, g)" by fastforce
  note facts = settledD [OF assms(1) [unfolded s]]
  show ?thesis
  proof (cases r)
    case (Open l)
    then show ?thesis
      using assms(2) by (cases "m_state p = CLOSED"; cases "client_gone env l")
        (auto simp: s open_closed open_not_closed refused_def)
  next
    case (Close c)
    then show ?thesis
      using assms(2) by (cases "m_state p = READY"; cases "m_controller p = Some c")
        (auto simp: s close_ready close_foreign close_not_ready refused_def)
  next
    case Start
    then show ?thesis
      using assms(2) facts by (cases "m_state p = READY \<and> g_startedPorts g < g_maxStartedPorts g")
        (auto simp: s start_ready start_refused refused_def not_less)
  next
    case Stop
    then show ?thesis
      using assms(2) facts by (cases "m_state p = STARTED")
        (auto simp: s stop_started stop_refused refused_def)
  next
    case ResetMetrics
    then show ?thesis
      using assms(2) by (auto simp: s resetMetricsFromController_def Let_def refused_def)
  next
    case (ClientDied e)
    then show ?thesis
      using assms(2) by (auto simp: s refused_def case_prod_unfold Let_def)
  qed
qed

theorem refused_request_has_no_effect_witness:
  "\<forall>env. snd (serve (env, Stop) (CompositeInputPort 0, initial_globals)) =
     (CompositeInputPort 0, initial_globals)"
proof
  fix env
  have s: "settled (CompositeInputPort 0, initial_globals)"
    using settled_initial [of 0 1 0] by (simp add: initial_globals_def)
  have r: "refused (fst (fst (serve (env, Stop) (CompositeInputPort 0, initial_globals))))"
    by (simp add: stop_refused refused_def CompositeInputPort_def)
  show "snd (serve (env, Stop) (CompositeInputPort 0, initial_globals)) =
     (CompositeInputPort 0, initial_globals)"
    using refused_request_has_no_effect [OF s r] by simp
qed

end
