(* ===== verification/Port_Behaviour.thy ===== *)
theory Port_Behaviour
  imports Session_Spec
begin

text \<open>
  Behaviour of a port across its operations: what the end of a session resets, what a
  control-plane report changes and who can see it, the observer registry, and the delivery
  barrier between consecutive state events.
\<close>

section \<open>The end of a session\<close>

text \<open>The payload is zeroed with its declared type; any other value is left alone.\<close>

fun zeroed :: "property_value \<Rightarrow> property_value" where
  "zeroed v =
     (case pv_value v of
        Some (IntValue _) \<Rightarrow> makeInt32 0
      | Some (LongValue _) \<Rightarrow> makeInt64 0
      | _ \<Rightarrow> v)"

lemma zeroMetric_lookup:
  "zeroMetric m cache k = (if k = m then map_option zeroed (cache k) else cache k)"
  by (auto simp: zeroMetric_def split: option.splits value_union.splits)

lemma foldl_zeroMetric:
  "distinct ms \<Longrightarrow>
   foldl (\<lambda>cache m. zeroMetric m cache) cache ms k =
     (if k \<in> set ms then map_option zeroed (cache k) else cache k)"
  by (induction ms arbitrary: cache) (auto simp: zeroMetric_lookup)

text \<open>The telemetry metrics, as the shipped profile lists them.\<close>

definition session_metrics :: "port_property set" where
  "session_metrics =
     {METRIC_SIGNAL_LOCK_TIME, METRIC_SIGNAL_DROPS, METRIC_UPTIME, METRIC_SIGNAL_LOCK_COUNT,
      METRIC_LAST_SIGNAL_LOCK_TIME, METRIC_LAST_RESET_TIMESTAMP}"

lemma reset_lookup:
  "m_cachedProperties (resetSessionStateLocked p) k =
     (if k \<in> session_metrics then map_option zeroed (m_cachedProperties p k)
      else m_cachedProperties p k)"
proof -
  have "distinct kSessionScopedMetrics" "set kSessionScopedMetrics = session_metrics"
    by (auto simp: kSessionScopedMetrics_def session_metrics_def)
  then show ?thesis
    by (simp add: resetSessionStateLocked_def foldl_zeroMetric)
qed

definition hardware :: "port \<Rightarrow> bool \<times> signal_status \<times> video_resolution option" where
  "hardware p = (ps_connected (m_cachedStatus p), ps_signalStatus (m_cachedStatus p),
                 ps_detectedResolution (m_cachedStatus p))"

definition accumulators :: "port \<Rightarrow> int list" where
  "accumulators p = [m_startTsMs p, m_lastResetTsMs p, m_signalLockTimeMs p,
     m_lastSignalLockTimeMs p, m_signalDrops p, m_signalLockCount p]"

definition session_ended :: "port \<Rightarrow> port \<Rightarrow> bool" where
  "session_ended p q \<longleftrightarrow>
     m_state q = CLOSED \<and> m_controller q = None \<and> m_controllerListener q = None \<and>
     m_controllerDeathRecipient q = None \<and> \<not> m_deathCleanupPending q \<and>
     accumulators q = replicate 6 0 \<and>
     (\<forall>k. m_cachedProperties q k =
        (if k \<in> session_metrics then map_option zeroed (m_cachedProperties p k)
         else m_cachedProperties p k)) \<and>
     hardware q = hardware p \<and> m_eventListeners q = m_eventListeners p"

lemma accumulators_reset: "accumulators (resetSessionStateLocked p) = replicate 6 0"
  by (simp add: accumulators_def resetSessionStateLocked_def numeral_eq_Suc)

lemma hardware_frame [simp]:
  "hardware (resetSessionStateLocked p) = hardware p"
  "hardware (fst (setStateLocked s p)) = hardware p"
  by (simp_all add: hardware_def setStateLocked_def)

lemma closed_port_ended: "session_ended p (closed_port p)"
  by (simp add: session_ended_def closed_port_def cleanupFinish_def setStateLocked_def Let_def
      reset_lookup accumulators_reset)
    (simp add: hardware_def)

lemma stopped_closed_ended: "session_ended p (closed_port (stopped_port p))"
  using closed_port_ended [of "stopped_port p"] by (simp add: session_ended_def stopped_port_def)

lemma rolled_back_ended: "m_state p = CLOSED \<Longrightarrow> session_ended p (rolled_back_port env l p)"
  by (simp add: session_ended_def rolled_back_port_def openEnter_def openRollback_def
      setStateLocked_def Let_def reset_lookup accumulators_reset)
    (simp add: hardware_def)

text \<open>
  C21: whichever way a session ends (close, the death of its client in READY or STARTED, or
  an open that loses its client), the port is CLOSED without owner, the six METRIC properties
  and the accumulators behind them are zero, each metric with the payload type it had, and every
  other property, the hardware report and the observers are as they were.
\<close>

theorem session_end_restores_metrics:
  assumes "settled s" and "m_state (fst (snd (serve r s))) = CLOSED"
    and "m_sessionEpoch (fst (snd (serve r s))) \<noteq> m_sessionEpoch (fst s)"
  shows "session_ended (fst s) (fst (snd (serve r s)))"
proof -
  obtain p g where s: "s = (p, g)" by fastforce
  obtain env q where r: "r = (env, q)" by fastforce
  note facts = settledD [OF assms(1) [unfolded s]]
  show ?thesis
  proof (cases q)
    case (Open l)
    then show ?thesis
      using assms(2,3) by (cases "m_state p = CLOSED"; cases "client_gone env l")
        (auto simp: s r open_closed open_not_closed rolled_back_ended)
  next
    case (Close c)
    then show ?thesis
      using assms(2,3) by (cases "m_state p = READY"; cases "m_controller p = Some c")
        (auto simp: s r close_ready close_foreign close_not_ready closed_port_ended)
  next
    case Start
    then show ?thesis
      using assms(2,3) facts by (cases "m_state p = READY \<and> g_startedPorts g < g_maxStartedPorts g")
        (auto simp: s r start_ready start_refused not_less)
  next
    case Stop
    then show ?thesis
      using assms(2,3) facts by (cases "m_state p = STARTED") (auto simp: s r stop_started stop_refused)
  next
    case ResetMetrics
    then show ?thesis
      using assms(2,3) by (auto simp: s r resetMetricsFromController_def Let_def split: if_splits)
  next
    case (ClientDied e)
    then show ?thesis
      using assms(3) facts
      by (cases "m_sessionEpoch p \<noteq> e \<or> m_state p = CLOSED"; cases "m_state p = READY")
        (auto simp: s r binderDied_def death_stale death_ready death_started closed_port_ended
          stopped_closed_ended)
  qed
qed


theorem session_end_restores_metrics_witness:
  "let p = opened_port demo_env 5 (CompositeInputPort 0) in
   session_ended p (fst (snd (serve (demo_env, Close 42) (p, initial_globals))))"
proof -
  let ?p = "opened_port demo_env 5 (CompositeInputPort 0)"
  have "settled (?p, initial_globals)"
    by (simp add: settled_def opened_port_inv inv_construct initial_globals_def)
  moreover have e: "close_port demo_env (Some 42) (Some False) ?p = (StatusOk, Some True, closed_port ?p,
      onStateChanged demo_env (m_eventListeners ?p) READY CLOSING @
      unlinkEffects (case m_controllerListener ?p of None \<Rightarrow> None | Some l \<Rightarrow> asBinder demo_env l)
        (m_controllerDeathRecipient ?p) @
      onStateChanged demo_env (m_eventListeners ?p) CLOSING CLOSED)"
    by (rule close_ready) (simp_all add: demo_env_def)
  ultimately show ?thesis
    using session_end_restores_metrics [of "(?p, initial_globals)" "(demo_env, Close 42)"]
    by (simp add: Let_def CompositeInputPort_def)
qed

section \<open>Who sees a control-plane report\<close>

text \<open>
  What a client can read from a port: its state, its status, and every property.
\<close>

definition same_answers :: "port \<Rightarrow> port \<Rightarrow> bool" where
  "same_answers p q \<longleftrightarrow>
     (\<forall>r. getState r p = getState r q) \<and> (\<forall>r. getStatus r p = getStatus r q) \<and>
     (\<forall>k r. getProperty k r p = getProperty k r q) \<and>
     (\<forall>ks r. getPropertyMulti ks r p = getPropertyMulti ks r q)"

definition dormant :: "port \<Rightarrow> bool" where
  "dormant p \<longleftrightarrow> m_state p \<noteq> STARTING \<and> m_state p \<noteq> STARTED"

text \<open>Ports that agree on everything but the hardware report and the signal telemetry.\<close>

definition same_but_signal :: "port \<Rightarrow> port \<Rightarrow> bool" where
  "same_but_signal p q \<longleftrightarrow>
     m_state p = m_state q \<and> ps_portId (m_cachedStatus p) = ps_portId (m_cachedStatus q) \<and>
     m_supportedProperties p = m_supportedProperties q \<and>
     (\<forall>k. k \<noteq> SIGNAL_STRENGTH \<longrightarrow> k \<noteq> SIGNAL_QUALITY \<longrightarrow>
        m_cachedProperties p k = m_cachedProperties q k)"

lemma status_hidden:
  "ps_portId s = ps_portId t \<Longrightarrow>
   s\<lparr>ps_connected := c, ps_signalStatus := u, ps_detectedResolution := r, ps_active := a\<rparr> =
   (t\<lparr>ps_connected := c, ps_signalStatus := u, ps_detectedResolution := r, ps_active := a\<rparr> :: port_status)"
  by (cases s; cases t) simp

lemma dormant_same_answers:
  assumes "dormant p" and "same_but_signal p q"
  shows "same_answers p q"
proof -
  have st: "getStatus r p = getStatus r q" for r
    using assms
    by (auto simp: getStatus_def dormant_def same_but_signal_def
        intro!: arg_cong [where f = "with_out r"] status_hidden)
  have pre: "preStartBaseline k q = preStartBaseline k p"
    and cached: "\<not> preStartBaseline k p \<Longrightarrow> m_cachedProperties q k = m_cachedProperties p k" for k
    using assms by (auto simp: preStartBaseline_def dormant_def same_but_signal_def)
  have "getProperty k r p = getProperty k r q" for k r
    using assms cached [of k] by (simp add: getProperty_def pre same_but_signal_def split: option.split)
  moreover have "multiEntry k p = multiEntry k q" for k
    using assms cached [of k] by (simp add: multiEntry_def pre same_but_signal_def split: option.split)
  ultimately show ?thesis
    using assms st by (simp add: same_answers_def getPropertyMulti_def getState_def same_but_signal_def)
qed


definition ut_command_in :: "get_map_value \<Rightarrow> kvp \<Rightarrow> ut_command" where
  "ut_command_in gm kvp = decodeCommand gm (kvp_string kvp kUtCommandKey)"

lemma same_but_signal_refl [simp]: "same_but_signal p p"
  by (simp add: same_but_signal_def)

lemma same_but_signal_status:
  "ps_portId s = ps_portId (m_cachedStatus p) \<Longrightarrow> same_but_signal p (p\<lparr>m_cachedStatus := s\<rparr>)"
  by (simp add: same_but_signal_def)

lemma ut_same_but_signal:
  "dormant p \<Longrightarrow> same_but_signal p (fst (utConnection kvp p))"
  "dormant p \<Longrightarrow> same_but_signal p (fst (utSignalStatus env kvp p))"
  "dormant p \<Longrightarrow> same_but_signal p (fst (utVideoMode kvp p))"
  "same_but_signal p (fst (utClearVideoMode p))"
  "portProperty_of (kvp_string kvp kPropertyKey) \<in> {None, Some SIGNAL_STRENGTH, Some SIGNAL_QUALITY} \<Longrightarrow>
   same_but_signal p (fst (utSetProperty env kvp p))"
  by (auto simp: ut_defs Let_def dormant_def publishesTelemetry_def same_but_signal_status
      split: option.split)
    (auto simp: same_but_signal_def cacheWrite_def)

text \<open>A message that reports a signal status, as the control plane would encode it.\<close>

definition signal_message :: "string \<Rightarrow> kvp" where
  "signal_message token =
     \<lparr>ut_kvp_fieldPresent = (\<lambda>k. k = kUtCommandKey \<or> k = kSignalStatusKey),
      ut_kvp_getBoolField = (\<lambda>k. False), ut_kvp_getUInt32Field = (\<lambda>k. 0),
      ut_kvp_getUInt64Field = (\<lambda>k. 0), ut_kvp_getFloatField = (\<lambda>k. FNaN),
      ut_kvp_getStringField =
        (\<lambda>k n. (UT_KVP_STATUS_SUCCESS, if k = kUtCommandKey then ''signal_status'' else token)),
      ut_kvp_getListCount = (\<lambda>k. 0)\<rparr>"

lemma signal_message_simps:
  "kvp_string (signal_message token) kUtCommandKey = ''signal_status''"
  "kvp_string (signal_message token) kSignalStatusKey = token"
  "ut_kvp_fieldPresent (signal_message token) kSignalStatusKey"
  by (simp_all add: signal_message_def kvp_string_def kUtCommandKey_def kSignalStatusKey_def)

lemma decode_signal_status: "map_value_spec gm \<Longrightarrow> decodeCommand gm ''signal_status'' = SIGNAL_STATUS"
  by (simp add: decode_map_of utControllerEntries_def ut_command_of_int_def)

lemma handle_signal_message:
  "map_value_spec gm \<Longrightarrow>
   handleUTControlPlaneMessage gm env (Some (signal_message token)) p =
     utSignalStatus env (signal_message token) p"
  by (simp add: handleUTControlPlaneMessage_def signal_message_simps decode_signal_status)

text \<open>
  C23: early reports are hidden. While a port is neither starting nor started, a control-plane report
  about the signal (connection, signal status, video mode, or a SET_PROPERTY of the two signal
  telemetry keys) changes no answer a client can get from the port: not its state, its status,
  nor any property, read alone or in a batch.
\<close>

theorem early_reports_are_hidden:
  assumes "dormant p"
    and "ut_command_in gm kvp = SET_PROPERTY \<Longrightarrow>
       portProperty_of (kvp_string kvp kPropertyKey) \<in> {None, Some SIGNAL_STRENGTH, Some SIGNAL_QUALITY}"
  shows "same_answers p (fst (handleUTControlPlaneMessage gm env (Some kvp) p))"
proof (rule dormant_same_answers [OF assms(1)])
  show "same_but_signal p (fst (handleUTControlPlaneMessage gm env (Some kvp) p))"
    using assms ut_same_but_signal
    by (simp add: handleUTControlPlaneMessage_def ut_command_in_def split: ut_command.split)
qed

theorem early_reports_are_hidden_witness:
  "same_answers (CompositeInputPort 3)
     (fst (handleUTControlPlaneMessage scan_map demo_env (Some (signal_message ''STABLE''))
        (CompositeInputPort 3)))"
proof (rule early_reports_are_hidden)
  show "dormant (CompositeInputPort 3)"
    by (simp add: dormant_def CompositeInputPort_def)
  show "ut_command_in scan_map (signal_message ''STABLE'') = SET_PROPERTY \<Longrightarrow>
    portProperty_of (kvp_string (signal_message ''STABLE'') kPropertyKey)
      \<in> {None, Some SIGNAL_STRENGTH, Some SIGNAL_QUALITY}"
    by (simp add: ut_command_in_def signal_message_simps decode_signal_status scan_map_spec)
qed

text \<open>
  C24: while a port is started, a valid signal report is visible at once and consistently:
  the status and the two telemetry properties carry the reported values, a resolution
  survives only a stable signal, every registered observer is told the two properties, and
  the controlling client is told the status exactly once, repeated reports included.
\<close>

theorem signal_report_while_started:
  assumes "port_inv p" and "m_state p = STARTED" and "count_list (m_eventListeners p) (Some l) = 1"
    and "ut_kvp_fieldPresent kvp kSignalStatusKey"
    and "signalStatus_of (kvp_string kvp kSignalStatusKey) = Some s"
  shows "let (q, es) = utSignalStatus env kvp p in
     getStatus (Some old) q =
       (StatusOk, Some ((m_cachedStatus p)
          \<lparr>ps_signalStatus := s,
           ps_detectedResolution :=
             (if s = STABLE then ps_detectedResolution (m_cachedStatus p) else None)\<rparr>)) \<and>
     (supportsPropertyLocked SIGNAL_STRENGTH p \<longrightarrow>
        getProperty SIGNAL_STRENGTH (Some x) q =
          (StatusOk, Some (Some (makeInt64 (signalStrengthDbmFor s))))) \<and>
     (supportsPropertyLocked SIGNAL_QUALITY p \<longrightarrow>
        getProperty SIGNAL_QUALITY (Some x) q = (StatusOk, Some (Some (makeInt32 (signalQualityFor s))))) \<and>
     seen_edges l es = [] \<and>
     seen_updates l es = [(SIGNAL_STRENGTH, makeInt64 (signalStrengthDbmFor s)),
                          (SIGNAL_QUALITY, makeInt32 (signalQualityFor s))] \<and>
     (\<exists>c. m_controllerListener p = Some c \<and> controller_callbacks es = [SignalStatusChanged c s])"
proof -
  obtain c where c: "m_controllerListener p = Some c"
    using assms(1,2) by (auto simp: port_inv_def)
  have "status = status\<lparr>ps_detectedResolution := ps_detectedResolution status\<rparr>" for status :: port_status
    by simp
  then show ?thesis
    using assms c
    by (simp add: utSignalStatus_def Let_def publishesTelemetry_def effect_simps getStatus_def
        with_out_def getProperty_def preStartBaseline_def cacheWrite_def supportsPropertyLocked_def
        onSignalStatusChanged_def)
qed


text \<open>
  A video mode moves the cached status to STABLE as well, and on a started port the telemetry;
  of this the controlling client is told the mode only and the observers nothing.
\<close>

lemma video_mode_changes_signal_silently:
  assumes "firstPresentKey kvp [Some kPixelWidthKey, Some kWidthKey] = Some w"
    and "firstPresentKey kvp [Some kPixelHeightKey, Some kHeightKey] = Some h"
    and "firstPresentKey kvp [Some kFrameRateInHzKey, Some kFrameRateKey, Some kFpsKey] = Some f"
    and "firstPresentKey kvp [Some kInterlacedKey, Some kIsInterlacedKey] = None"
    and "parsed (makeVideoResolution (cast_int32 (ut_kvp_getUInt32Field kvp w))
          (cast_int32 (ut_kvp_getUInt32Field kvp h)) False (ut_kvp_getFloatField kvp f)
          (Some default_resolution)) = Some r"
    and "m_controllerListener p = Some c"
  shows "let (q, es) = utVideoMode kvp p in
     ps_signalStatus (m_cachedStatus q) = STABLE \<and>
     (publishesTelemetry p \<longrightarrow>
        m_cachedProperties q SIGNAL_STRENGTH = Some (makeInt64 (signalStrengthDbmFor STABLE)) \<and>
        m_cachedProperties q SIGNAL_QUALITY = Some (makeInt32 (signalQualityFor STABLE))) \<and>
     es = [VideoModeChanged c r]"
  using assms by (simp add: utVideoMode_def onVideoModeChanged_def publishesTelemetry_def cacheWrite_def Let_def)

lemma signal_tokens:
  "signalStatus_of ''STABLE'' = Some STABLE" "signalStatus_of ''NO_SIGNAL'' = Some NO_SIGNAL"
  by (simp_all add: signalStatus_of_eq trim_no_space isspace_def kSignalStatusTokens_def)

theorem signal_report_while_started_witness:
  "let p = (CompositeInputPort 0)\<lparr>m_state := STARTED, m_controller := Some 42,
        m_controllerListener := Some 5, m_eventListeners := [Some 7],
        m_cachedStatus := (m_cachedStatus (CompositeInputPort 0))\<lparr>ps_active := True\<rparr>\<rparr>
   in seen_updates 7 (snd (utSignalStatus demo_env (signal_message ''STABLE'') p)) =
        [(SIGNAL_STRENGTH, makeInt64 (-20)), (SIGNAL_QUALITY, makeInt32 85)]"
proof -
  let ?p = "(CompositeInputPort 0)\<lparr>m_state := STARTED, m_controller := Some 42,
        m_controllerListener := Some 5, m_eventListeners := [Some 7],
        m_cachedStatus := (m_cachedStatus (CompositeInputPort 0))\<lparr>ps_active := True\<rparr>\<rparr>"
  have i: "port_inv ?p"
    by (simp add: port_inv_def CompositeInputPort_def resolution_inv_def)
  have s: "m_state ?p = STARTED" "count_list (m_eventListeners ?p) (Some 7) = 1"
    by simp_all
  have t: "signalStatus_of (kvp_string (signal_message ''STABLE'') kSignalStatusKey) = Some STABLE"
    by (simp add: signal_message_simps signal_tokens)
  show ?thesis
    using signal_report_while_started [OF i s signal_message_simps(3) t, of demo_env undefined undefined]
    by (simp add: Let_def case_prod_unfold)
qed

lemma utSignalStatus_message:
  "utSignalStatus env (signal_message ''STABLE'') p =
     (let q = p\<lparr>m_cachedStatus := (m_cachedStatus p)\<lparr>ps_signalStatus := STABLE\<rparr>\<rparr>
      in (if publishesTelemetry p
          then cacheWrite SIGNAL_QUALITY (makeInt32 85) (cacheWrite SIGNAL_STRENGTH (makeInt64 (-20)) q)
          else q,
          (if publishesTelemetry p
           then onPropertyChanged env (m_eventListeners p) SIGNAL_STRENGTH (makeInt64 (-20)) @
                onPropertyChanged env (m_eventListeners p) SIGNAL_QUALITY (makeInt32 85)
           else []) @ onSignalStatusChanged (m_controllerListener p) STABLE))"
  "\<not> publishesTelemetry p \<Longrightarrow>
   utSignalStatus env (signal_message ''NO_SIGNAL'') p =
     (p\<lparr>m_cachedStatus := (m_cachedStatus p)
          \<lparr>ps_signalStatus := NO_SIGNAL, ps_detectedResolution := None\<rparr>\<rparr>,
      onSignalStatusChanged (m_controllerListener p) NO_SIGNAL)"
  by (simp_all add: utSignalStatus_def signal_message_simps signal_tokens Let_def publishesTelemetry_def)

text \<open>
  C33: telemetry can outlive the signal it belongs to. When a stable signal is reported on a
  started port, the port is stopped, the signal is lost while the port is READY and the port
  is started again, then \<open>start\<close> tells the client NO_SIGNAL and every observer the strength
  and quality of the stable signal, and the properties read back that way too.
\<close>

theorem restart_publishes_stale_telemetry:
  assumes "settled (p, g)" and "m_state p = STARTED" and "count_list (m_eventListeners p) (Some l) = 1"
    and "supportsPropertyLocked SIGNAL_QUALITY p"
  shows "let p1 = fst (utSignalStatus env (signal_message ''STABLE'') p);
       (st2, p2, g2, es2) = stopFromController env p1 g;
       p3 = fst (utSignalStatus env (signal_message ''NO_SIGNAL'') p2);
       (st4, p4, g4, es4) = startFromController env p3 g2
     in st2 = StatusOk \<and> st4 = StatusOk \<and>
       ps_signalStatus (m_cachedStatus p4) = NO_SIGNAL \<and>
       seen_updates l es4 = [(SIGNAL_STRENGTH, makeInt64 (-20)), (SIGNAL_QUALITY, makeInt32 85)] \<and>
       (\<exists>c. controller_callbacks es4 = [SignalStatusChanged c NO_SIGNAL]) \<and>
       getProperty SIGNAL_QUALITY (Some None) p4 = (StatusOk, Some (Some (makeInt32 85)))"
proof -
  note facts = settledD [OF assms(1)]
  obtain c where c: "m_controllerListener p = Some c"
    using facts(1) assms(2) by (auto simp: port_inv_def)
  define p1 where "p1 = fst (utSignalStatus env (signal_message ''STABLE'') p)"
  define p2 where "p2 = stopped_port p1"
  define p3 where "p3 = fst (utSignalStatus env (signal_message ''NO_SIGNAL'') p2)"
  have p1: "m_state p1 = STARTED" "\<not> m_deathCleanupPending p1" "m_eventListeners p1 = m_eventListeners p"
    "m_controllerListener p1 = Some c" "m_supportedProperties p1 = m_supportedProperties p"
    "m_cachedProperties p1 SIGNAL_STRENGTH = Some (makeInt64 (-20))"
    "m_cachedProperties p1 SIGNAL_QUALITY = Some (makeInt32 85)"
    using assms facts(3) c
    by (simp_all add: p1_def utSignalStatus_message(1) Let_def publishesTelemetry_def cacheWrite_def)
  have p3: "m_state p3 = READY" "\<not> m_deathCleanupPending p3" "m_eventListeners p3 = m_eventListeners p"
    "m_controllerListener p3 = Some c" "m_supportedProperties p3 = m_supportedProperties p"
    "m_cachedProperties p3 = m_cachedProperties p1" "ps_signalStatus (m_cachedStatus p3) = NO_SIGNAL"
    using p1
    by (simp_all add: p3_def p2_def utSignalStatus_message(2) publishesTelemetry_def stopped_port_def
        setStateLocked_def)
  have stop: "stopFromController env p1 g = (StatusOk, p2, g\<lparr>g_startedPorts := g_startedPorts g - 1\<rparr>,
      onStateChanged env (m_eventListeners p1) STARTED STOPPING @
      onStateChanged env (m_eventListeners p1) STOPPING READY)"
    unfolding p2_def by (rule stop_started) (use p1 facts(6) assms(2) in simp_all)
  have start: "startFromController env p3 (g\<lparr>g_startedPorts := g_startedPorts g - 1\<rparr>) =
      (StatusOk, started_port env p3, g,
       onStateChanged env (m_eventListeners p3) READY STARTING @
       onSignalStatusChanged (Some c) NO_SIGNAL @
       onStateChanged env (m_eventListeners p3) STARTING STARTED @
       onPropertyChanged env (m_eventListeners p3) SIGNAL_STRENGTH (makeInt64 (-20)) @
       onPropertyChanged env (m_eventListeners p3) SIGNAL_QUALITY (makeInt32 85))"
    using start_ready [of p3 "g\<lparr>g_startedPorts := g_startedPorts g - 1\<rparr>" env] p1 p3 facts(5)
    by (simp add: cached_or_def)
  have "ps_signalStatus (m_cachedStatus (started_port env p3)) = NO_SIGNAL"
    "m_supportedProperties (started_port env p3) = m_supportedProperties p"
    using p3 by (simp_all add: started_port_def startBaseline_def setStateLocked_def)
  then show ?thesis
    using assms(3,4) p1 p3
    by (simp add: Let_def p1_def [symmetric] stop p3_def [symmetric] start effect_simps
        onSignalStatusChanged_def getProperty_def preStartBaseline_def supportsPropertyLocked_def)
qed


definition demo_started :: "port \<times> globals" where
  "demo_started =
     ((setCapabilities \<lparr>pc_supportedProperties = [SIGNAL_QUALITY], pc_propertyMetadata = None\<rparr>
         (CompositeInputPort 0))
        \<lparr>m_state := STARTED, m_controller := Some 42, m_controllerListener := Some 5,
         m_eventListeners := [Some 7],
         m_cachedStatus := (m_cachedStatus (CompositeInputPort 0))\<lparr>ps_active := True\<rparr>\<rparr>,
      \<lparr>g_startedPorts = 1, g_maxStartedPorts = 1\<rparr>)"

lemma demo_started_settled: "settled demo_started"
  by (simp add: settled_def port_inv_def demo_started_def CompositeInputPort_def setCapabilities_def
      resolution_inv_def)

lemma demo_started_simps:
  "m_state (fst demo_started) = STARTED" "m_eventListeners (fst demo_started) = [Some 7]"
  "supportsPropertyLocked SIGNAL_QUALITY (fst demo_started)"
  by (simp_all add: demo_started_def setCapabilities_def CompositeInputPort_def
      supportsPropertyLocked_def)

theorem restart_publishes_stale_telemetry_witness:
  "let (p, g) = demo_started;
       p1 = fst (utSignalStatus demo_env (signal_message ''STABLE'') p);
       (st2, p2, g2, es2) = stopFromController demo_env p1 g;
       p3 = fst (utSignalStatus demo_env (signal_message ''NO_SIGNAL'') p2);
       (st4, p4, g4, es4) = startFromController demo_env p3 g2
   in seen_updates 7 es4 = [(SIGNAL_STRENGTH, makeInt64 (-20)), (SIGNAL_QUALITY, makeInt32 85)]"
proof -
  have "settled (fst demo_started, snd demo_started)"
    using demo_started_settled by simp
  moreover have "count_list (m_eventListeners (fst demo_started)) (Some 7) = 1"
    by (simp add: demo_started_simps)
  ultimately show ?thesis
    using restart_publishes_stale_telemetry [of "fst demo_started" "snd demo_started" 7 demo_env]
      demo_started_simps
    by (simp add: Let_def case_prod_unfold)
qed

lemma controller_event_bound:
  "length (onConnectionChanged c b) \<le> Suc 0" "length (onSignalStatusChanged c s) \<le> Suc 0"
  "length (onVideoModeChanged c r) \<le> Suc 0"
  "onConnectionChanged None b = []" "onSignalStatusChanged None s = []" "onVideoModeChanged None r = []"
  by (simp_all add: onConnectionChanged_def onSignalStatusChanged_def onVideoModeChanged_def
      split: option.split)

definition ut_quiet :: "iface \<Rightarrow> port \<Rightarrow> effect list \<Rightarrow> bool" where
  "ut_quiet l p es \<longleftrightarrow>
     seen_edges l es = [] \<and> length (controller_callbacks es) \<le> 1 \<and>
     (m_controllerListener p = None \<longrightarrow> controller_callbacks es = [])"

lemma ut_quiet_intros:
  "ut_quiet l p (snd (utConnection kvp p))" "ut_quiet l p (snd (utSignalStatus env kvp p))"
  "ut_quiet l p (snd (utVideoMode kvp p))" "ut_quiet l p (snd (utClearVideoMode p))"
  "ut_quiet l p (snd (utSetProperty env kvp p))" "ut_quiet l p []"
  by (auto simp: ut_quiet_def ut_defs Let_def effect_simps controller_event_bound split: option.split)

lemma handle_quiet: "ut_quiet l p (snd (handleUTControlPlaneMessage gm env kvp p))"
  by (simp add: handleUTControlPlaneMessage_def ut_quiet_intros split: option.split ut_command.split)

lemma ut_cache_frame:
  assumes "k \<notin> {SIGNAL_STRENGTH, SIGNAL_QUALITY} \<or> dormant p"
  shows "m_cachedProperties (fst (utConnection kvp p)) k = m_cachedProperties p k"
    and "m_cachedProperties (fst (utSignalStatus env kvp p)) k = m_cachedProperties p k"
    and "m_cachedProperties (fst (utVideoMode kvp p)) k = m_cachedProperties p k"
    and "m_cachedProperties (fst (utClearVideoMode p)) k = m_cachedProperties p k"
  using assms
  by (auto simp: ut_defs Let_def dormant_def publishesTelemetry_def cacheWrite_def split: option.split)

lemma utSetProperty_cache:
  "portProperty_of (kvp_string kvp kPropertyKey) \<noteq> Some k \<Longrightarrow>
   m_cachedProperties (fst (utSetProperty env kvp p)) k = m_cachedProperties p k"
  by (auto simp: utSetProperty_def Let_def cacheWrite_def split: option.split)

text \<open>
  The control plane plays the hardware and nothing else. Whatever message arrives, the
  port invariant is kept, the session and the observer list are untouched, no state event is
  sent, the controlling client is called at most once and only if there is one, and a
  property changes only if it is signal telemetry of a port being started or started, or
  the property that a SET_PROPERTY message names.
\<close>

lemma ut_message_frame:
  assumes "port_inv p"
  shows "let (q, es) = handleUTControlPlaneMessage gm env (Some kvp) p in
     port_inv q \<and> session_view q = session_view p \<and>
     seen_edges l es = [] \<and> length (controller_callbacks es) \<le> 1 \<and>
     (m_state p = CLOSED \<longrightarrow> controller_callbacks es = []) \<and>
     (\<forall>k. m_cachedProperties q k \<noteq> m_cachedProperties p k \<longrightarrow>
        (k \<in> {SIGNAL_STRENGTH, SIGNAL_QUALITY} \<and> \<not> dormant p) \<or>
        (ut_command_in gm kvp = SET_PROPERTY \<and> portProperty_of (kvp_string kvp kPropertyKey) = Some k))"
proof -
  have "m_cachedProperties (fst (handleUTControlPlaneMessage gm env (Some kvp) p)) k =
      m_cachedProperties p k"
    if "k \<notin> {SIGNAL_STRENGTH, SIGNAL_QUALITY} \<or> dormant p"
      and "ut_command_in gm kvp = SET_PROPERTY \<Longrightarrow> portProperty_of (kvp_string kvp kPropertyKey) \<noteq> Some k" for k
    using that(2) ut_cache_frame [OF that(1)] utSetProperty_cache [of kvp k env p]
    by (simp add: handleUTControlPlaneMessage_def ut_command_in_def split: ut_command.split)
  then have "\<forall>k. m_cachedProperties (fst (handleUTControlPlaneMessage gm env (Some kvp) p)) k \<noteq>
       m_cachedProperties p k \<longrightarrow>
     (k \<in> {SIGNAL_STRENGTH, SIGNAL_QUALITY} \<and> \<not> dormant p) \<or>
     (ut_command_in gm kvp = SET_PROPERTY \<and> portProperty_of (kvp_string kvp kPropertyKey) = Some k)"
    by blast
  then show ?thesis
    using inv_handle [OF assms, of gm env "Some kvp"] handle_session_view [of gm env "Some kvp" p]
      handle_quiet [of l p gm env "Some kvp"] assms
    by (simp add: Let_def case_prod_unfold ut_quiet_def port_inv_def)
qed

section \<open>The observer registry\<close>

text \<open>How many state callbacks reach the Binder node of listener \<open>l\<close>.\<close>

fun reaches :: "binder_env \<Rightarrow> iface \<Rightarrow> effect \<Rightarrow> bool" where
  "reaches env l (StateChanged l' old new) \<longleftrightarrow> asBinder env l' = asBinder env l"
| "reaches env l _ \<longleftrightarrow> False"

definition deliveries :: "binder_env \<Rightarrow> iface \<Rightarrow> effect list \<Rightarrow> nat" where
  "deliveries env l es = length (filter (reaches env l) es)"

lemma reaches_callback: "reaches env l e \<Longrightarrow> is_callback e"
  by (cases e) auto

lemma deliveries_callbacks: "deliveries env l es = deliveries env l (filter is_callback es)"
proof -
  have "filter (reaches env l) es = filter (\<lambda>e. reaches env l e \<and> is_callback e) es"
    by (rule filter_cong) (auto dest: reaches_callback)
  then show ?thesis by (simp add: deliveries_def conj_commute)
qed

lemma count_nodes:
  "length (filter (\<lambda>l'. asBinder env l' = asBinder env l) (List.map_filter id ls)) =
   count_list (map (map_option (asBinder env)) ls) (Some (asBinder env l))"
  by (induction ls) (auto simp: List.map_filter_def)

lemma deliveries_eq:
  "deliveries env l (onStateChanged env (m_eventListeners p) old new) =
     count_list (listener_nodes env p) (Some (asBinder env l))"
proof -
  have "filter is_callback (onStateChanged env (m_eventListeners p) old new) =
      map (\<lambda>l'. StateChanged l' old new) (List.map_filter id (m_eventListeners p))"
    using state_bc.filter_callbacks [of env "m_eventListeners p" "(old, new)"] by simp
  then show ?thesis
    unfolding deliveries_callbacks [of env l "onStateChanged env (m_eventListeners p) old new"]
    by (simp add: deliveries_def filter_map comp_def count_nodes listener_nodes_def)
qed

lemma count_distinct: "distinct xs \<Longrightarrow> count_list xs x = of_bool (x \<in> set xs)"
  by (induction xs) auto

text \<open>
  Registering twice is registering once: the observer then receives every state event
  exactly once. After it is unregistered it receives none, a second unregistration is
  refused, and no other observer's deliveries are affected by any of this.
\<close>

lemma observer_registration:
  assumes "distinct (listener_nodes env p)"
  shows "let (st1, p1) = registerEventListener env (Some l) p;
       (st2, p2) = registerEventListener env (Some l) p1;
       (st3, p3) = unregisterEventListener env (Some l) p2;
       told = \<lambda>l q. deliveries env l (onStateChanged env (m_eventListeners q) old new)
     in st1 = StatusOk \<and> st2 = StatusOk \<and> st3 = StatusOk \<and>
       told l p2 = 1 \<and> told l p3 = 0 \<and>
       unregisterEventListener env (Some l) p3 = (StatusEx EX_ILLEGAL_ARGUMENT, p3) \<and>
       distinct (listener_nodes env p2) \<and> distinct (listener_nodes env p3) \<and>
       (asBinder env l' \<noteq> asBinder env l \<longrightarrow> told l' p2 = told l' p \<and> told l' p3 = told l' p)"
proof -
  let ?n = "Some (asBinder env l)"
  define p1 where "p1 = snd (registerEventListener env (Some l) p)"
  define p2 where "p2 = snd (registerEventListener env (Some l) p1)"
  define p3 where "p3 = snd (unregisterEventListener env (Some l) p2)"
  have d2: "distinct (listener_nodes env p2)"
    unfolding p2_def p1_def by (intro registry.reg_distinct assms)
  have d3: "distinct (listener_nodes env p3)"
    unfolding p3_def by (intro registry.unreg_distinct d2)
  have in2: "?n \<in> set (listener_nodes env p2)"
    unfolding p2_def by (rule registry.reg_member)
  have out3: "?n \<notin> set (listener_nodes env p3)"
    unfolding p3_def by (rule registry.unreg_gone [OF d2])
  have others: "Some (asBinder env l') \<in> set (listener_nodes env p2) \<longleftrightarrow>
      Some (asBinder env l') \<in> set (listener_nodes env p)"
    "Some (asBinder env l') \<in> set (listener_nodes env p3) \<longleftrightarrow>
      Some (asBinder env l') \<in> set (listener_nodes env p2)" if "asBinder env l' \<noteq> asBinder env l" for l'
    using that registry.unreg_other [of env l' l p2]
    by (auto simp: p2_def p1_def p3_def registry.reg_members)
  have again: "unregisterEventListener env (Some l) p3 = (StatusEx EX_ILLEGAL_ARGUMENT, p3)"
    using out3 registry.unreg_status [of env l p3]
    by (auto simp: unregisterEventListener_def split: option.splits if_splits)
  have "fst (unregisterEventListener env (Some l) p2) = StatusOk"
    using in2 by (simp add: registry.unreg_status)
  then show ?thesis
    using in2 out3 d2 d3 again others assms
    by (simp add: Let_def case_prod_unfold p1_def [symmetric] p2_def [symmetric] p3_def [symmetric]
        registry.reg_ok deliveries_eq count_distinct)
qed


section \<open>The delivery barrier\<close>

text \<open>
  Scanning the interactions of a call for one observer: \<open>due\<close> says that the observer has
  accepted a state event and still owes a barrier. The scan succeeds when no further state
  event is sent to it, and the call does not end, while a barrier is due.
\<close>

fun paced :: "binder_env \<Rightarrow> iface \<Rightarrow> bool \<Rightarrow> effect list \<Rightarrow> bool" where
  "paced env l due [] \<longleftrightarrow> \<not> due"
| "paced env l due (StateChanged l' old new # es) \<longleftrightarrow>
     (if l' = l
      then \<not> due \<and> paced env l (callbackOk env (StateChanged l old new) \<and> asBinder env l \<noteq> None) es
      else paced env l due es)"
| "paced env l due (PingBinder b # es) \<longleftrightarrow> paced env l (due \<and> asBinder env l \<noteq> Some b) es"
| "paced env l due (_ # es) \<longleftrightarrow> paced env l due es"

lemma paced_append: "paced env l due es \<Longrightarrow> paced env l False es' \<Longrightarrow> paced env l due (es @ es')"
  by (induction env l due es rule: paced.induct) auto

fun keeps_pace :: "effect \<Rightarrow> bool" where
  "keeps_pace (StateChanged _ _ _) = False"
| "keeps_pace (PingBinder _) = False"
| "keeps_pace _ = True"

lemma paced_quiet: "\<forall>e \<in> set es. keeps_pace e \<Longrightarrow> paced env l False es"
proof (induction es)
  case (Cons e es)
  then show ?case by (cases e) auto
qed simp

lemma paced_pings: "due \<longrightarrow> asBinder env l \<in> Some ` set bs \<Longrightarrow> paced env l due (map PingBinder bs)"
  by (induction bs arbitrary: due) auto

lemma paced_callbacks:
  "l \<notin> set ts \<Longrightarrow> paced env l due (map (\<lambda>l. StateChanged l old new) ts @ es) = paced env l due es"
  by (induction ts) auto

lemma paced_callbacks_once:
  "count_list ts l = 1 \<Longrightarrow>
   paced env l False (map (\<lambda>l. StateChanged l old new) ts @ es) =
     paced env l (callbackOk env (StateChanged l old new) \<and> asBinder env l \<noteq> None) es"
proof (induction ts)
  case (Cons t ts)
  then show ?case
    using paced_callbacks [of l ts env _ old new es] by (auto split: if_splits simp: count_list_0_iff)
qed simp

lemma paced_state: "count_list ls (Some l) \<le> 1 \<Longrightarrow> paced env l False (onStateChanged env ls old new)"
proof -
  define ts where "ts = List.map_filter id ls"
  define acc where "acc = filter (\<lambda>l. callbackOk env (StateChanged l old new)) ts"
  define rest where "rest = (if acc = [] then []
      else FlushCommands # map PingBinder (List.map_filter (asBinder env) acc))"
  assume "count_list ls (Some l) \<le> 1"
  then have one: "count_list ts l = 0 \<or> count_list ts l = 1"
    by (auto simp: ts_def count_list_map_filter_id)
  have owed: "paced env l due rest" if "due \<longrightarrow> l \<in> set acc \<and> asBinder env l \<noteq> None" for due
  proof -
    have "due \<longrightarrow> asBinder env l \<in> Some ` set (List.map_filter (asBinder env) acc)"
      using that by (auto simp: List.map_filter_def image_iff)
    then show ?thesis
      using that by (auto simp: rest_def intro: paced_pings)
  qed
  have "paced env l False (map (\<lambda>l. StateChanged l old new) ts @ rest)"
    using one
  proof
    assume "count_list ts l = 0"
    then show ?thesis
      by (simp add: paced_callbacks owed count_list_0_iff)
  next
    assume "count_list ts l = 1"
    moreover from this have "l \<in> set ts"
      using count_list_0_iff [of ts l] by auto
    ultimately show ?thesis
      by (simp add: paced_callbacks_once owed acc_def)
  qed
  then show ?thesis
    by (simp only: onStateChanged_eq Let_def rest_def ts_def acc_def)
qed

lemma paced_property: "paced env l False (onPropertyChanged env ls k v)"
  by (rule paced_quiet) (auto simp: onPropertyChanged_def propertyCallbacks_eq)

lemma paced_others:
  "paced env l False (onConnectionChanged c b)" "paced env l False (onSignalStatusChanged c s)"
  "paced env l False (linkEffects env c' r)" "paced env l False (unlinkEffects b' r)"
  by (auto simp: onConnectionChanged_def onSignalStatusChanged_def linkEffects_def unlinkEffects_def
      split: option.split)

lemmas paced_intros = paced_append paced_state paced_property paced_others

text \<open>
  C22: state events are paced. In the interactions of any request, an observer that accepts a
  state event is pinged before the next state event is sent to it and before the call
  returns, so a oneway event is executed by the observer before the next one is issued.
\<close>

theorem state_events_are_paced:
  assumes "settled s" and "count_list (m_eventListeners (fst s)) (Some l) \<le> 1"
  shows "paced env l False (snd (fst (serve (env, r) s)))"
proof -
  obtain p g where s: "s = (p, g)" by fastforce
  note facts = settledD [OF assms(1) [unfolded s]]
  have one: "count_list (m_eventListeners p) (Some l) \<le> 1" using assms(2) s by simp
  show ?thesis
  proof (cases r)
    case (Open c)
    then show ?thesis
      using one by (cases "m_state p = CLOSED"; cases "client_gone env c")
        (simp_all add: s open_closed open_not_closed paced_intros)
  next
    case (Close c)
    then show ?thesis
      using one by (cases "m_state p = READY"; cases "m_controller p = Some c")
        (simp_all add: s close_ready close_foreign close_not_ready paced_intros)
  next
    case Start
    then show ?thesis
      using facts one by (cases "m_state p = READY \<and> g_startedPorts g < g_maxStartedPorts g")
        (auto simp: s start_ready start_refused not_less intro!: paced_intros)
  next
    case Stop
    then show ?thesis
      using facts one by (cases "m_state p = STARTED")
        (simp_all add: s stop_started stop_refused paced_intros)
  next
    case ResetMetrics
    then show ?thesis
      by (simp add: s resetMetricsFromController_def Let_def paced_intros)
  next
    case (ClientDied e)
    then show ?thesis
      using facts one by (cases "m_sessionEpoch p \<noteq> e \<or> m_state p = CLOSED"; cases "m_state p = READY")
        (auto simp: s binderDied_def death_stale death_ready death_started intro!: paced_intros)
  qed
qed

theorem state_events_are_paced_witness:
  "paced demo_env 7 False (snd (fst (serve (demo_env, Stop) demo_started)))"
  by (rule state_events_are_paced [OF demo_started_settled]) (simp add: demo_started_simps)

end
