(* ===== verification/Port_Tasks.thy ===== *)
theory Port_Tasks
  imports Session_Spec
begin

text \<open>
  The operations of a port as threads. A task is the program counter of one call: it says
  which critical section, dispatch or libbinder call comes next, and carries the local
  variables that are still needed. \<open>micro\<close> performs that one action atomically on the
  port and the started-port count; between two actions other threads may run. Running a task
  without interruption is the operation of \<open>Port_Session\<close>.
\<close>

section \<open>Program counters\<close>

text \<open>
  The calls that are one critical section followed by their notifications: the observer
  registry, the property writes, the metrics reset and the control-plane message.
\<close>

datatype data_call =
    RegisterListener "iface sp"
  | UnregisterListener "iface sp"
  | SetProperty port_property property_value
  | SetPropertyMulti "property_kv_pair list"
  | ResetMetricsCall
  | UtMessage get_map_value "kvp sp"

primrec data_section :: "binder_env \<Rightarrow> data_call \<Rightarrow> port \<Rightarrow> status \<times> port \<times> effect list" where
  "data_section env (RegisterListener l) p =
     (let (st, p1) = registerEventListener env l p in (st, p1, []))"
| "data_section env (UnregisterListener l) p =
     (let (st, p1) = unregisterEventListener env l p in (st, p1, []))"
| "data_section env (SetProperty k v) p = setPropertyFromController env k v p"
| "data_section env (SetPropertyMulti kvs) p = setPropertyMultiFromController env kvs p"
| "data_section env ResetMetricsCall p = resetMetricsFromController env p"
| "data_section env (UtMessage getMapValue kvp) p =
     (let (p1, es) = handleUTControlPlaneMessage getMapValue env kvp p in (StatusOk, p1, es))"

text \<open>
  \<open>Finished\<close>: the call has returned, with its status and, for a close, what it wrote to
  \<open>_aidl_return\<close>.
\<close>

datatype (plugins only: code) task =
    OpenBegin iface
  | OpenLink iface "uint64 sp" lifecycle "iface sp list" bool
  | OpenRollback
  | OpenAnnounce iface lifecycle "iface sp list" bool
  | OpenConnection iface bool
  | OpenReady
  | OpenReadyNotify lifecycle "iface sp list"
  | CloseBegin controller
  | CloseNotify lifecycle "iface sp list"
  | CloseFinish
  | CloseUnlink "ibinder sp" "uint64 sp" lifecycle "iface sp list"
  | CloseClosedNotify lifecycle "iface sp list"
  | StartAcquire
  | StartEnter
  | StartNotify lifecycle "iface sp list"
  | StartReadSignal
  | StartSignalNotify "iface sp" signal_status
  | StartStarted
  | StartStartedNotify lifecycle "iface sp list"
  | StartBaseline
  | StartTelemetry "iface sp list" property_value property_value
  | StopBegin
  | StopNotify lifecycle "iface sp list"
  | StopReady
  | StopReadyNotify lifecycle "iface sp list"
  | StopRelease
  | PendingCheck
  | DeathBegin uint64
  | DeathStopNotify uint64 lifecycle "iface sp list"
  | DeathReady uint64
  | DeathReadyNotify uint64 lifecycle "iface sp list"
  | DeathRelease uint64
  | DeathClosing uint64
  | DeathClosingNotify lifecycle "iface sp list"
  | DeathFinish
  | DeathClosedNotify lifecycle "iface sp list"
  | DataBegin data_call
  | DataNotify status "effect list"
  | Finished status "bool option"

section \<open>One action\<close>

type_synonym outcome = "task \<times> port \<times> globals \<times> effect list"

primrec micro :: "binder_env \<Rightarrow> task \<Rightarrow> port \<Rightarrow> globals \<Rightarrow> outcome" where
  "micro env (OpenBegin l) p g =
     (case openEnter env l (observesDeath env l) p of
        None \<Rightarrow> (Finished (StatusEx EX_ILLEGAL_STATE) None, p, g, [])
      | Some (p1, old, ls, connected, r) \<Rightarrow> (OpenLink l r old ls connected, p1, g, []))"
| "micro env (OpenLink l r old ls connected) p g =
     (if linkFails env l r then OpenRollback else OpenAnnounce l old ls connected,
      p, g, linkEffects env l r)"
| "micro env OpenRollback p g = (Finished (StatusEx EX_ILLEGAL_STATE) None, openRollback p, g, [])"
| "micro env (OpenAnnounce l old ls connected) p g =
     (OpenConnection l connected, p, g, onStateChanged env ls old OPENING)"
| "micro env (OpenConnection l connected) p g =
     (OpenReady, p, g, onConnectionChanged (Some l) connected)"
| "micro env OpenReady p g =
     (let (p1, old, ls) = setStateLocked READY p in (OpenReadyNotify old ls, p1, g, []))"
| "micro env (OpenReadyNotify old ls) p g =
     (PendingCheck, p, g, onStateChanged env ls old READY)"
| "micro env (CloseBegin c) p g =
     (case closeEnter c p of
        CloseRejected \<Rightarrow> (Finished (StatusEx EX_ILLEGAL_STATE) None, p, g, [])
      | CloseForeign \<Rightarrow> (Finished StatusOk (Some False), p, g, [])
      | CloseEntered p1 old ls \<Rightarrow> (CloseNotify old ls, p1, g, []))"
| "micro env (CloseNotify old ls) p g = (CloseFinish, p, g, onStateChanged env ls old CLOSING)"
| "micro env CloseFinish p g =
     (let (p1, old, ls, b, r) = closeFinish env p in (CloseUnlink b r old ls, p1, g, []))"
| "micro env (CloseUnlink b r old ls) p g = (CloseClosedNotify old ls, p, g, unlinkEffects b r)"
| "micro env (CloseClosedNotify old ls) p g =
     (Finished StatusOk (Some True), p, g, onStateChanged env ls old CLOSED)"
| "micro env StartAcquire p g =
     (case acquireStartedSlot g of
        None \<Rightarrow> (Finished (StatusEx EX_ILLEGAL_STATE) None, p, g, [])
      | Some g1 \<Rightarrow> (StartEnter, p, g1, []))"
| "micro env StartEnter p g =
     (case startEnter p of
        None \<Rightarrow> (Finished (StatusEx EX_ILLEGAL_STATE) None, p, releaseStartedSlot g, [])
      | Some (p1, old, ls) \<Rightarrow> (StartNotify old ls, p1, g, []))"
| "micro env (StartNotify old ls) p g =
     (StartReadSignal, p, g, onStateChanged env ls old STARTING)"
| "micro env StartReadSignal p g =
     (let (c, s) = startReadSignal p in (StartSignalNotify c s, p, g, []))"
| "micro env (StartSignalNotify c s) p g = (StartStarted, p, g, onSignalStatusChanged c s)"
| "micro env StartStarted p g =
     (let (p1, old, ls) = setStateLocked STARTED p in (StartStartedNotify old ls, p1, g, []))"
| "micro env (StartStartedNotify old ls) p g =
     (StartBaseline, p, g, onStateChanged env ls old STARTED)"
| "micro env StartBaseline p g =
     (let (p1, ls, v, w) = startBaseline env p in (StartTelemetry ls v w, p1, g, []))"
| "micro env (StartTelemetry ls v w) p g =
     (PendingCheck, p, g, onPropertyChanged env ls SIGNAL_STRENGTH v @
                          onPropertyChanged env ls SIGNAL_QUALITY w)"
| "micro env StopBegin p g =
     (case stopEnter p of
        None \<Rightarrow> (Finished (StatusEx EX_ILLEGAL_STATE) None, p, g, [])
      | Some (p1, old, ls) \<Rightarrow> (StopNotify old ls, p1, g, []))"
| "micro env (StopNotify old ls) p g = (StopReady, p, g, onStateChanged env ls old STOPPING)"
| "micro env StopReady p g =
     (let (p1, old, ls) = setStateLocked READY p in (StopReadyNotify old ls, p1, g, []))"
| "micro env (StopReadyNotify old ls) p g = (StopRelease, p, g, onStateChanged env ls old READY)"
| "micro env StopRelease p g = (PendingCheck, p, releaseStartedSlot g, [])"
| "micro env PendingCheck p g =
     (case takePending p of
        None \<Rightarrow> (Finished StatusOk None, p, g, [])
      | Some (p1, e) \<Rightarrow> (DeathBegin e, p1, g, []))"
| "micro env (DeathBegin e) p g =
     (case cleanupStopStage e p of
        StopReturn p1 \<Rightarrow> (Finished StatusOk None, p1, g, [])
      | StopSkipped p1 \<Rightarrow> (DeathClosing e, p1, g, [])
      | StopBegun p1 old ls \<Rightarrow> (DeathStopNotify e old ls, p1, g, []))"
| "micro env (DeathStopNotify e old ls) p g =
     (DeathReady e, p, g, onStateChanged env ls old STOPPING)"
| "micro env (DeathReady e) p g =
     (let (p1, old, ls) = setStateLocked READY p in (DeathReadyNotify e old ls, p1, g, []))"
| "micro env (DeathReadyNotify e old ls) p g =
     (DeathRelease e, p, g, onStateChanged env ls old READY)"
| "micro env (DeathRelease e) p g = (DeathClosing e, p, releaseStartedSlot g, [])"
| "micro env (DeathClosing e) p g =
     (case cleanupCloseStage e p of
        CloseReturn p1 \<Rightarrow> (Finished StatusOk None, p1, g, [])
      | CloseBegun p1 old ls \<Rightarrow> (DeathClosingNotify old ls, p1, g, []))"
| "micro env (DeathClosingNotify old ls) p g =
     (DeathFinish, p, g, onStateChanged env ls old CLOSING)"
| "micro env DeathFinish p g =
     (let (p1, old, ls) = cleanupFinish p in (DeathClosedNotify old ls, p1, g, []))"
| "micro env (DeathClosedNotify old ls) p g =
     (Finished StatusOk None, p, g, onStateChanged env ls old CLOSED)"
| "micro env (DataBegin d) p g =
     (let (st, p1, es) = data_section env d p in (DataNotify st es, p1, g, []))"
| "micro env (DataNotify st es) p g = (Finished st None, p, g, es)"
| "micro env (Finished st ret) p g = (Finished st ret, p, g, [])"

fun run_task :: "nat \<Rightarrow> binder_env \<Rightarrow> task \<Rightarrow> port \<Rightarrow> globals \<Rightarrow> outcome" where
  "run_task 0 env t p g = (t, p, g, [])"
| "run_task (Suc n) env t p g =
     (let (t1, p1, g1, es) = micro env t p g;
          (t2, p2, g2, es2) = run_task n env t1 p1 g1
      in (t2, p2, g2, es @ es2))"

text \<open>How many actions a task has left at most; every action takes one off.\<close>

primrec remaining :: "task \<Rightarrow> nat" where
  "remaining (OpenBegin l) = 17"
| "remaining (OpenLink l r old ls connected) = 16"
| "remaining OpenRollback = 1"
| "remaining (OpenAnnounce l old ls connected) = 15"
| "remaining (OpenConnection l connected) = 14"
| "remaining OpenReady = 13"
| "remaining (OpenReadyNotify old ls) = 12"
| "remaining (CloseBegin c) = 5"
| "remaining (CloseNotify old ls) = 4"
| "remaining CloseFinish = 3"
| "remaining (CloseUnlink b r old ls) = 2"
| "remaining (CloseClosedNotify old ls) = 1"
| "remaining StartAcquire = 20"
| "remaining StartEnter = 19"
| "remaining (StartNotify old ls) = 18"
| "remaining StartReadSignal = 17"
| "remaining (StartSignalNotify c s) = 16"
| "remaining StartStarted = 15"
| "remaining (StartStartedNotify old ls) = 14"
| "remaining StartBaseline = 13"
| "remaining (StartTelemetry ls v w) = 12"
| "remaining StopBegin = 16"
| "remaining (StopNotify old ls) = 15"
| "remaining StopReady = 14"
| "remaining (StopReadyNotify old ls) = 13"
| "remaining StopRelease = 12"
| "remaining PendingCheck = 11"
| "remaining (DeathBegin e) = 10"
| "remaining (DeathStopNotify e old ls) = 8"
| "remaining (DeathReady e) = 7"
| "remaining (DeathReadyNotify e old ls) = 6"
| "remaining (DeathRelease e) = 5"
| "remaining (DeathClosing e) = 4"
| "remaining (DeathClosingNotify old ls) = 3"
| "remaining DeathFinish = 2"
| "remaining (DeathClosedNotify old ls) = 1"
| "remaining (DataBegin d) = 2"
| "remaining (DataNotify s es) = 1"
| "remaining (Finished st ret) = 0"

lemma micro_remaining:
  "\<nexists>st ret. t = Finished st ret \<Longrightarrow> remaining (fst (micro env t p g)) < remaining t"
  by (cases t) (simp_all add: Let_def case_prod_unfold split: option.split close_entry.split
      stop_stage.split close_stage.split)

lemma remaining_zero: "remaining t = 0 \<longleftrightarrow> (\<exists>st ret. t = Finished st ret)"
  by (cases t) auto

lemma run_task_finishes:
  "remaining t \<le> n \<Longrightarrow> \<exists>st ret. fst (run_task n env t p g) = Finished st ret"
proof (induction n arbitrary: t p g)
  case 0
  then show ?case using remaining_zero [of t] by simp
next
  case (Suc n)
  obtain t1 p1 g1 es where m: "micro env t p g = (t1, p1, g1, es)"
    by (cases "micro env t p g") auto
  have "remaining t1 \<le> n"
  proof (cases "\<exists>st ret. t = Finished st ret")
    case True
    with m show ?thesis by auto
  next
    case False
    with micro_remaining [of t env p g] m Suc.prems show ?thesis by auto
  qed
  from Suc.IH [OF this] m show ?case
    by (auto simp: case_prod_unfold Let_def)
qed

text \<open>Enough fuel gives the result, whatever more is supplied.\<close>

lemma run_finished: "run_task n env (Finished st ret) p g = (Finished st ret, p, g, [])"
  by (induction n) auto

lemma run_more:
  "fst (run_task n env t p g) = Finished st ret \<Longrightarrow> run_task (n + m) env t p g = run_task n env t p g"
proof (induction n arbitrary: t p g)
  case 0
  then show ?case by (simp add: run_finished)
next
  case (Suc n)
  obtain t1 p1 g1 es where "micro env t p g = (t1, p1, g1, es)"
    by (cases "micro env t p g") auto
  with Suc.prems Suc.IH [of t1 p1 g1] show ?case
    by (auto simp: case_prod_unfold Let_def)
qed

section \<open>Uninterrupted runs\<close>

text \<open>
  Running the clean-up stages, the deferred clean-up, and then each operation to its end
  gives exactly the sequential definitions.
\<close>

definition after :: "effect list \<Rightarrow> outcome \<Rightarrow> outcome" where
  "after es r = (let (t, p, g, es') = r in (t, p, g, es @ es'))"

lemma run_step:
  "0 < n \<Longrightarrow> micro env t p g = (t1, p1, g1, es) \<Longrightarrow>
   run_task n env t p g = after es (run_task (n - 1) env t1 p1 g1)"
  by (cases n) (auto simp: after_def)

definition finishes :: "status \<Rightarrow> bool option \<Rightarrow> port \<times> globals \<times> effect list \<Rightarrow> outcome" where
  "finishes st ret r = (Finished st ret, r)"

lemma after_simps [simp]:
  "after [] r = r"
  "after es (after es' r) = after (es @ es') r"
  "after es (t, x) = (t, fst x, fst (snd x), es @ snd (snd x))"
  "after es (finishes st ret x) = finishes st ret (fst x, fst (snd x), es @ snd (snd x))"
  by (simp_all add: after_def finishes_def case_prod_unfold)

lemma finishes_eq: "finishes st ret r = (Finished st ret, fst r, fst (snd r), snd (snd r))"
  by (simp add: finishes_def)

lemma run_closing:
  "run_task (n + 4) env (DeathClosing e) p g = finishes StatusOk None (cleanupClosing env e p g)"
  by (cases "cleanupCloseStage e p")
    (auto simp: eval_nat_numeral run_finished cleanupClosing_def finishes_eq case_prod_unfold Let_def)

lemma run_death:
  "run_task (n + 10) env (DeathBegin e) p g =
     finishes StatusOk None (cleanupAfterControllerDeath env e p g)"
proof (cases "cleanupStopStage e p")
  case (StopReturn p1)
  then show ?thesis
    by (simp add: cleanupAfterControllerDeath_def finishes_eq run_step run_finished)
next
  case (StopSkipped p1)
  then show ?thesis
    using run_closing [of "n + 5" env e p1 g]
    by (simp add: cleanupAfterControllerDeath_def finishes_eq run_step)
next
  case (StopBegun p1 old ls)
  then show ?thesis
    using run_closing [of "n + 1" env e "fst (setStateLocked READY p1)" "releaseStartedSlot g"]
    by (simp add: cleanupAfterControllerDeath_def finishes_eq run_step case_prod_unfold Let_def)
qed

lemma run_pending:
  "run_task (n + 11) env PendingCheck p g =
     finishes StatusOk None (runPendingDeathCleanupIfNeeded env p g)"
  using run_death [of n env]
  by (cases "takePending p")
    (auto simp: runPendingDeathCleanupIfNeeded_def finishes_eq run_step run_finished add.commute)

lemma run_open:
  "run_task (n + 17) env (OpenBegin l) p g =
     (let (st, ret, r) = open_port env (Some l) (Some None) p g in finishes st None r)"
proof (cases "openEnter env l (observesDeath env l) p")
  case None
  then show ?thesis
    by (simp add: open_port_def finishes_eq run_step run_finished)
next
  case (Some x)
  obtain p1 old ls connected r where x: "x = (p1, old, ls, connected, r)"
    by (cases x) auto
  show ?thesis
  proof (cases "linkFails env l r")
    case True
    with Some x show ?thesis
      by (simp add: open_port_def finishes_eq run_step run_finished)
  next
    case False
    with Some x show ?thesis
      using run_pending [of n env "fst (setStateLocked READY p1)" g]
      by (simp add: open_port_def finishes_eq run_step case_prod_unfold Let_def add.commute)
  qed
qed

lemma run_close:
  "run_task (n + 5) env (CloseBegin c) p g =
     (let (st, ret, p', es) = close_port env (Some c) (Some old) p
      in finishes st (if st = StatusOk then ret else None) (p', g, es))"
  by (cases "closeEnter c p")
    (simp_all add: close_port_def finishes_eq run_step run_finished case_prod_unfold Let_def)

lemma run_start:
  "run_task (n + 20) env StartAcquire p g =
     (let (st, r) = startFromController env p g in finishes st None r)"
proof (cases "acquireStartedSlot g")
  case None
  then show ?thesis
    by (simp add: startFromController_def finishes_eq run_step run_finished)
next
  case (Some g1)
  show ?thesis
  proof (cases "startEnter p")
    case None
    with Some show ?thesis
      by (simp add: startFromController_def finishes_eq run_step run_finished)
  next
    case (Some x)
    obtain p1 old ls where x: "x = (p1, old, ls)" by (cases x) auto
    let ?q = "fst (startBaseline env (fst (setStateLocked STARTED p1)))"
    show ?thesis
      using Some x \<open>acquireStartedSlot g = Some g1\<close> run_pending [of n env ?q g1]
      by (simp add: startFromController_def finishes_eq run_step case_prod_unfold Let_def add.commute)
  qed
qed

lemma run_stop:
  "run_task (n + 16) env StopBegin p g =
     (let (st, r) = stopFromController env p g in finishes st None r)"
proof (cases "stopEnter p")
  case None
  then show ?thesis
    by (simp add: stopFromController_def finishes_eq run_step run_finished)
next
  case (Some x)
  obtain p1 old ls where x: "x = (p1, old, ls)" by (cases x) auto
  with Some show ?thesis
    using run_pending [of n env "fst (setStateLocked READY p1)" "releaseStartedSlot g"]
    by (simp add: stopFromController_def finishes_eq run_step case_prod_unfold Let_def add.commute)
qed

section \<open>Properties\<close>

text \<open>
  Run alone, every lifecycle call is the sequential operation. Twenty actions take the
  thread of \<open>open\<close>, \<open>close\<close>, \<open>start\<close>, \<open>stop\<close> or of a death notice to its end, with the
  status, the port, the slot count and the callbacks, in order, that the operation of
  \<open>Port_Session\<close> gives; the deferred clean-up at the tail is included.
\<close>

lemma uninterrupted_runs:
  "run_task 20 env (OpenBegin l) p g =
     (let (st, ret, r) = open_port env (Some l) (Some None) p g in (Finished st None, r)) \<and>
   run_task 20 env (CloseBegin c) p g =
     (let (st, ret, p', es) = close_port env (Some c) (Some old) p
      in (Finished st (if st = StatusOk then ret else None), p', g, es)) \<and>
   run_task 20 env StartAcquire p g =
     (let (st, r) = startFromController env p g in (Finished st None, r)) \<and>
   run_task 20 env StopBegin p g =
     (let (st, r) = stopFromController env p g in (Finished st None, r)) \<and>
   run_task 20 env (DeathBegin e) p g = (Finished StatusOk None, binderDied env True e p g)"
  using run_open [of 3 env l p g] run_close [of 15 env c p g old] run_start [of 0 env p g]
    run_stop [of 4 env p g] run_death [of 10 env e p g]
  by (simp add: finishes_def binderDied_def)

text \<open>
  No lifecycle call runs forever, from whatever point it is resumed, whatever the port
  and the count have become in between: \<open>remaining\<close> actions finish it, and supplying more
  changes nothing.
\<close>

lemma lifecycle_calls_terminate:
  "(\<exists>st ret. fst (run_task (remaining t) env t p g) = Finished st ret) \<and>
   run_task (remaining t + m) env t p g = run_task (remaining t) env t p g"
  using run_task_finishes [of t "remaining t" env p g] run_more [of "remaining t" env t p g _ _ m] by auto

end
