(* ===== verification/Task_Ownership.thy ===== *)
theory Task_Ownership
  imports Port_Tasks
begin

text \<open>
  What a thread owns while it executes an operation of a port: the transitional phase it has
  entered and the started slot it holds. One action is proved correct with respect to that
  ownership; \<open>Port_Interleaving\<close> adds up the actions of many threads.
\<close>

section \<open>What a thread owns\<close>

text \<open>
  A thread that has put a port into a transitional state owns the port until it takes the
  next edge: \<open>phase_claim\<close> is that state. \<open>holds_slot\<close> marks the threads that have
  acquired a started slot that no port accounts for yet, or no longer.
\<close>

definition phase_claim :: "task \<Rightarrow> lifecycle option" where
  "phase_claim t =
     (case t of
        OpenLink _ _ _ _ _ \<Rightarrow> Some OPENING
      | OpenRollback \<Rightarrow> Some OPENING
      | OpenAnnounce _ _ _ _ \<Rightarrow> Some OPENING
      | OpenConnection _ _ \<Rightarrow> Some OPENING
      | OpenReady \<Rightarrow> Some OPENING
      | CloseNotify _ _ \<Rightarrow> Some CLOSING
      | CloseFinish \<Rightarrow> Some CLOSING
      | StartNotify _ _ \<Rightarrow> Some STARTING
      | StartReadSignal \<Rightarrow> Some STARTING
      | StartSignalNotify _ _ \<Rightarrow> Some STARTING
      | StartStarted \<Rightarrow> Some STARTING
      | StopNotify _ _ \<Rightarrow> Some STOPPING
      | StopReady \<Rightarrow> Some STOPPING
      | DeathStopNotify _ _ _ \<Rightarrow> Some STOPPING
      | DeathReady _ \<Rightarrow> Some STOPPING
      | DeathClosingNotify _ _ \<Rightarrow> Some CLOSING
      | DeathFinish \<Rightarrow> Some CLOSING
      | _ \<Rightarrow> None)"

definition holds_slot :: "task \<Rightarrow> bool" where
  "holds_slot t =
     (case t of
        StartEnter \<Rightarrow> True
      | StopReadyNotify _ _ \<Rightarrow> True
      | StopRelease \<Rightarrow> True
      | DeathReadyNotify _ _ _ \<Rightarrow> True
      | DeathRelease _ \<Rightarrow> True
      | _ \<Rightarrow> False)"

definition claim_ok :: "task \<Rightarrow> port \<Rightarrow> bool" where
  "claim_ok t p = (case phase_claim t of None \<Rightarrow> True | Some s \<Rightarrow> m_state p = s)"

lemmas ownership_defs = phase_claim_def holds_slot_def claim_ok_def

text \<open>What the outcome of a section says about the port before and after.\<close>

lemma stop_stage_result:
  "cleanupStopStage e p = StopReturn p1 \<Longrightarrow>
     p1 = p \<or> (\<not> stable (m_state p) \<and> p1 = p\<lparr>m_deathCleanupPending := True\<rparr>)"
  "cleanupStopStage e p = StopSkipped p1 \<Longrightarrow> p1 = p \<and> m_state p = READY"
  "cleanupStopStage e p = StopBegun p1 old ls \<Longrightarrow>
     m_state p = STARTED \<and> p1 = fst (setStateLocked STOPPING p)"
  by (cases "m_state p"; simp add: cleanupStopStage_def setStateLocked_def split: if_splits)+

lemma close_stage_result:
  "cleanupCloseStage e p = CloseReturn p1 \<Longrightarrow>
     p1 = p \<or> (m_state p \<noteq> CLOSED \<and> p1 = p\<lparr>m_deathCleanupPending := True\<rparr>)"
  "cleanupCloseStage e p = CloseBegun p1 old ls \<Longrightarrow>
     m_state p = READY \<and> p1 = fst (setStateLocked CLOSING p)"
  by (cases "m_state p"; simp add: cleanupCloseStage_def setStateLocked_def split: if_splits)+

lemma enter_result:
  "openEnter env l b p = Some (p1, x) \<Longrightarrow> m_state p = CLOSED \<and> m_state p1 = OPENING"
  "closeEnter c p = CloseEntered p1 old ls \<Longrightarrow> m_state p = READY \<and> p1 = fst (setStateLocked CLOSING p)"
  "startEnter p = Some (p1, old, ls) \<Longrightarrow> m_state p = READY \<and> p1 = fst (setStateLocked STARTING p)"
  "stopEnter p = Some (p1, old, ls) \<Longrightarrow> m_state p = STARTED \<and> p1 = fst (setStateLocked STOPPING p)"
  "takePending p = Some (p1, e) \<Longrightarrow> p1 = p\<lparr>m_deathCleanupPending := False\<rparr>"
  by (auto simp: section_defs Let_def split: if_splits)

lemma finish_state [simp]:
  "m_state (fst (closeFinish env p)) = CLOSED"
  "m_state (fst (cleanupFinish p)) = CLOSED"
  "m_state (openRollback p) = CLOSED"
  "m_state (fst (startBaseline env p)) = m_state p"
  by (simp_all add: section_defs Let_def)

lemmas section_results = stop_stage_result close_stage_result enter_result

lemma data_section_frame:
  assumes "data_section env d p = (st, p', es)"
  shows "m_state p' = m_state p" and "port_inv p \<Longrightarrow> port_inv p'"
proof -
  have "m_state (fst (snd (data_section env d p))) = m_state p \<and>
      (port_inv p \<longrightarrow> port_inv (fst (snd (data_section env d p))))"
  proof (cases d)
    case (UtMessage gm kvp)
    then show ?thesis
      using handle_session_view [of gm env kvp p]
      by (simp add: case_prod_unfold Let_def inv_handle session_view_def)
  next
    case (SetPropertyMulti kvs)
    have "m_state (writeBatch kvs q) = m_state q" for q
      by (induction kvs arbitrary: q) auto
    with SetPropertyMulti show ?thesis
      by (simp add: setPropertyMultiFromController_def inv_writeBatch split: option.split)
  next
    case (RegisterListener l)
    then show ?thesis
      using inv_register [of p env l]
      by (simp add: case_prod_unfold Let_def registerEventListener_def split: option.split)
  next
    case (UnregisterListener l)
    then show ?thesis
      using inv_unregister [of p env l]
      by (simp add: case_prod_unfold Let_def unregisterEventListener_def split: option.split)
  next
    case ResetMetricsCall
    then show ?thesis
      using inv_resetMetrics [of p env]
      by (simp add: resetMetricsFromController_def Let_def)
  next
    case (SetProperty k v)
    then show ?thesis
      by (simp add: setPropertyFromController_def inv_cacheWrite)
  qed
  with assms show "m_state p' = m_state p" and "port_inv p \<Longrightarrow> port_inv p'" by simp_all
qed


section \<open>Local effect of one action\<close>

lemma micro_port_inv:
  assumes "port_inv p" and "claim_ok t p"
  shows "port_inv (fst (snd (micro env t p g)))"
proof (cases t)
  case (OpenBegin l)
  with assms show ?thesis by (auto split: option.split dest: inv_openEnter)
next
  case (DataBegin d)
  with assms(1) data_section_frame(2) show ?thesis
    by (cases "data_section env d p") auto
next
  case PendingCheck
  with assms(1) show ?thesis by (auto split: option.split dest: inv_takePending)
next
  case (DeathBegin e)
  have "\<not> stable s \<Longrightarrow> s \<noteq> CLOSED" for s by auto
  with DeathBegin assms(1) show ?thesis
    by (auto split: stop_stage.split dest!: stop_stage_result intro: inv_setState inv_pending)
next
  case (DeathClosing e)
  with assms(1) show ?thesis
    by (auto split: close_stage.split dest!: close_stage_result intro: inv_setState inv_pending)
qed (use assms in \<open>auto simp: ownership_defs case_prod_unfold Let_def split: option.split close_entry.split
    dest!: enter_result intro: inv_setState inv_openRollback inv_cleanupFinish inv_closeFinish
      inv_startBaseline\<close>)


text \<open>
  One action moves the port along an edge or not at all; it keeps its own claim true,
  creates a claim exactly when it makes the port transitional and drops it when it makes
  the port stable; it never moves a port that another thread claims; and the slot count
  changes as the slots held by the thread and by the port do.
\<close>

definition local_step :: "task \<Rightarrow> port \<Rightarrow> globals \<Rightarrow> outcome \<Rightarrow> bool" where
  "local_step t p g r \<longleftrightarrow>
     (let (t', p', g', es) = r in
        (m_state p' = m_state p \<or> lifecycle_edge (m_state p) (m_state p')) \<and>
        claim_ok t' p' \<and>
        (of_bool (phase_claim t' \<noteq> None) - of_bool (phase_claim t \<noteq> None) :: int) =
          of_bool (\<not> stable (m_state p')) - of_bool (\<not> stable (m_state p)) \<and>
        (phase_claim t = None \<longrightarrow> stable (m_state p) \<or> m_state p' = m_state p) \<and>
        g_maxStartedPorts g' = g_maxStartedPorts g \<and>
        (g_startedPorts g \<le> g_maxStartedPorts g \<longrightarrow> g_startedPorts g' \<le> g_maxStartedPorts g) \<and>
        g_startedPorts g' - g_startedPorts g =
          of_bool (holds_slot t') - of_bool (holds_slot t) +
          of_bool (started_phase (m_state p')) - of_bool (started_phase (m_state p)))"

lemma acquire_result:
  "acquireStartedSlot g = Some g' \<Longrightarrow>
   g_startedPorts g < g_maxStartedPorts g \<and> g' = g\<lparr>g_startedPorts := g_startedPorts g + 1\<rparr>"
  by (auto simp: acquireStartedSlot_def split: if_splits)

lemma micro_local:
  assumes "claim_ok t p" and slot: "holds_slot t \<Longrightarrow> 0 < g_startedPorts g"
  shows "local_step t p g (micro env t p g)"
proof (cases t)
  case (DataBegin d)
  with data_section_frame(1) show ?thesis
    by (cases "data_section env d p") (auto simp: local_step_def ownership_defs)
next
  case (DeathBegin e)
  show ?thesis
  proof (cases "cleanupStopStage e p")
    case (StopReturn p1)
    with DeathBegin show ?thesis
      by (auto simp: local_step_def ownership_defs dest: stop_stage_result(1))
  next
    case (StopBegun p1 old ls)
    with DeathBegin stop_stage_result(3) [OF StopBegun] show ?thesis
      by (simp add: local_step_def ownership_defs)
  next
    case (StopSkipped p1)
    with DeathBegin show ?thesis
      by (auto simp: local_step_def ownership_defs dest: stop_stage_result(2))
  qed
next
  case (DeathClosing e)
  show ?thesis
  proof (cases "cleanupCloseStage e p")
    case (CloseReturn p1)
    with DeathClosing show ?thesis
      by (auto simp: local_step_def ownership_defs dest: close_stage_result(1))
  next
    case (CloseBegun p1 old ls)
    with DeathClosing close_stage_result(2) [OF CloseBegun] show ?thesis
      by (simp add: local_step_def ownership_defs)
  qed
next
  case StartAcquire
  then show ?thesis
    by (cases "acquireStartedSlot g")
      (auto simp: local_step_def ownership_defs dest!: acquire_result)
qed (use assms in \<open>auto simp: local_step_def ownership_defs case_prod_unfold Let_def release_equation
    split: option.split close_entry.split dest!: enter_result\<close>)

end
