(* ===== verification/Port_Interleaving.thy ===== *)
theory Port_Interleaving
  imports Task_Ownership
begin

text \<open>
  The ports of one service process under concurrent calls. Binder threads, death notices and
  the control-plane worker call the ports at any time; every critical section, callback
  dispatch and libbinder call of every thread is one step, and steps interleave freely. The
  system invariant adds up what the threads and the ports own.
\<close>

section \<open>The system\<close>

record system =
  sys_ports :: "port list"
  sys_globals :: globals
  sys_threads :: "(nat \<times> task) list"
  sys_log :: "(nat \<times> effect) list"

text \<open>The calls that start a thread: the entry points of the port.\<close>

definition is_entry :: "task \<Rightarrow> bool" where
  "is_entry t =
     (case t of
        OpenBegin _ \<Rightarrow> True
      | CloseBegin _ \<Rightarrow> True
      | StartAcquire \<Rightarrow> True
      | StopBegin \<Rightarrow> True
      | DeathBegin _ \<Rightarrow> True
      | DataBegin _ \<Rightarrow> True
      | _ \<Rightarrow> False)"

definition invoke :: "nat \<Rightarrow> task \<Rightarrow> system \<Rightarrow> system" where
  "invoke i t s = s\<lparr>sys_threads := sys_threads s @ [(i, t)]\<rparr>"

definition act :: "binder_env \<Rightarrow> nat \<Rightarrow> system \<Rightarrow> system" where
  "act env k s =
     (let (i, t) = sys_threads s ! k;
          (t', p', g', es) = micro env t (sys_ports s ! i) (sys_globals s)
      in s\<lparr>sys_ports := (sys_ports s)[i := p'], sys_globals := g',
           sys_threads := (sys_threads s)[k := (i, t')],
           sys_log := sys_log s @ map (Pair i) es\<rparr>)"

text \<open>Every step may see another environment: clocks advance, clients die.\<close>

inductive sys_step :: "system \<Rightarrow> system \<Rightarrow> bool" where
  call: "i < length (sys_ports s) \<Longrightarrow> is_entry t \<Longrightarrow> sys_step s (invoke i t s)"
| action: "k < length (sys_threads s) \<Longrightarrow> sys_step s (act env k s)"

inductive_cases sys_stepE: "sys_step s s'"

definition boot_port :: "int \<times> string \<times> string \<times> port_capabilities \<Rightarrow> port" where
  "boot_port cfg =
     (let (i, name, description, capabilities) = cfg
      in resetHardwareBaselineForBoot
           (setCapabilities capabilities (setPortInfo name description (CompositeInputPort i))))"

definition boot_system :: "int \<Rightarrow> (int \<times> string \<times> string \<times> port_capabilities) list \<Rightarrow> system" where
  "boot_system limit cfgs =
     \<lparr>sys_ports = map boot_port cfgs,
      sys_globals = setMaxConcurrentStartedPorts limit initial_globals,
      sys_threads = [], sys_log = []\<rparr>"

section \<open>The invariant\<close>

definition claims_on :: "nat \<Rightarrow> nat \<times> task \<Rightarrow> bool" where
  "claims_on i th \<longleftrightarrow> fst th = i \<and> phase_claim (snd th) \<noteq> None"

definition sys_inv :: "system \<Rightarrow> bool" where
  "sys_inv s \<longleftrightarrow>
     (\<forall>p \<in> set (sys_ports s). port_inv p) \<and>
     (\<forall>th \<in> set (sys_threads s).
        fst th < length (sys_ports s) \<and> claim_ok (snd th) (sys_ports s ! fst th)) \<and>
     (\<forall>i < length (sys_ports s).
        cnt (claims_on i) (sys_threads s) = of_bool (\<not> stable (m_state (sys_ports s ! i)))) \<and>
     g_startedPorts (sys_globals s) =
       cnt (holds_slot \<circ> snd) (sys_threads s) + cnt (started_phase \<circ> m_state) (sys_ports s) \<and>
     g_startedPorts (sys_globals s) \<le> g_maxStartedPorts (sys_globals s)"

lemma boot_port_inv: "port_inv (boot_port cfg)"
  by (simp add: boot_port_def case_prod_unfold Let_def inv_baseline inv_setCapabilities
      inv_setPortInfo inv_construct)

lemma boot_port_closed [simp]: "m_state (boot_port cfg) = CLOSED"
  by (simp add: boot_port_def case_prod_unfold resetHardwareBaselineForBoot_def
      setCapabilities_def setPortInfo_def CompositeInputPort_def Let_def)

lemma boot_inv: "sys_inv (boot_system limit cfgs)"
proof -
  have "cnt (started_phase \<circ> m_state) (map boot_port cfgs) = 0"
    by (simp add: cnt_zero_iff)
  then show ?thesis
    by (auto simp: sys_inv_def boot_system_def boot_port_inv setMaxConcurrentStartedPorts_def
        initial_globals_def)
qed

lemma entry_owns_nothing: "is_entry t \<Longrightarrow> phase_claim t = None \<and> \<not> holds_slot t"
  by (cases t) (simp_all add: is_entry_def ownership_defs)

lemma inv_invoke:
  assumes "sys_inv s" and "i < length (sys_ports s)" and "is_entry t"
  shows "sys_inv (invoke i t s)"
proof -
  have "cnt (claims_on j) [(i, t)] = 0" "cnt (holds_slot \<circ> snd) [(i, t)] = 0" "claim_ok t p" for j p
    using entry_owns_nothing [OF assms(3)] by (simp_all add: claims_on_def claim_ok_def)
  with assms(1,2) show ?thesis
    by (simp add: sys_inv_def invoke_def del: cnt_simps(2))
qed

text \<open>Two threads with the same claim are impossible, so a claim is not disturbed.\<close>

lemma cnt_two:
  assumes "j < length xs" and "k < length xs" and "j \<noteq> k" and "P (xs ! j)" and "P (xs ! k)"
  shows "2 \<le> cnt P xs"
proof -
  have "2 \<le> card {i. i < length xs \<and> P (xs ! i)}"
    using card_mono [of "{i. i < length xs \<and> P (xs ! i)}" "{j, k}"] assms by auto
  then show ?thesis by (simp add: cnt_def length_filter_conv_card)
qed

lemma thread_local:
  assumes inv: "sys_inv s" and k: "k < length (sys_threads s)" and th: "sys_threads s ! k = (i, t)"
  shows "i < length (sys_ports s)"
    and "local_step t (sys_ports s ! i) (sys_globals s) (micro env t (sys_ports s ! i) (sys_globals s))"
    and "port_inv (fst (snd (micro env t (sys_ports s ! i) (sys_globals s))))"
proof -
  have "(i, t) \<in> set (sys_threads s)"
    using k th by (metis nth_mem)
  with inv show i: "i < length (sys_ports s)"
    by (auto simp: sys_inv_def)
  have c: "claim_ok t (sys_ports s ! i)"
    using inv \<open>(i, t) \<in> set (sys_threads s)\<close> by (auto simp: sys_inv_def)
  show "port_inv (fst (snd (micro env t (sys_ports s ! i) (sys_globals s))))"
    using inv i c by (intro micro_port_inv) (auto simp: sys_inv_def)
  have "holds_slot t \<Longrightarrow> 0 < g_startedPorts (sys_globals s)"
    using inv k th cnt_pos [of k "sys_threads s" "holds_slot \<circ> snd"]
    by (simp add: sys_inv_def add_pos_nonneg)
  with c show "local_step t (sys_ports s ! i) (sys_globals s)
      (micro env t (sys_ports s ! i) (sys_globals s))"
    by (rule micro_local)
qed

lemma claim_undisturbed:
  assumes inv: "sys_inv s" and k: "k < length (sys_threads s)" and th: "sys_threads s ! k = (i, t)"
    and foreign: "phase_claim t = None \<longrightarrow>
      stable (m_state (sys_ports s ! i)) \<or> m_state p' = m_state (sys_ports s ! i)"
    and j: "j < length (sys_threads s)" "j \<noteq> k" "fst (sys_threads s ! j) = i"
  shows "claim_ok (snd (sys_threads s ! j)) p'"
proof (cases "phase_claim (snd (sys_threads s ! j))")
  case (Some x)
  let ?p = "sys_ports s ! i"
  have "sys_threads s ! j \<in> set (sys_threads s)" using j(1) by simp
  with inv Some j(3) have st: "m_state ?p = x" and i: "i < length (sys_ports s)"
    by (auto simp: sys_inv_def claim_ok_def)
  then have one: "cnt (claims_on i) (sys_threads s) = of_bool (\<not> stable (m_state ?p))"
    using inv by (simp add: sys_inv_def)
  moreover have "0 < cnt (claims_on i) (sys_threads s)"
    using j Some by (intro cnt_pos [of j]) (auto simp: claims_on_def)
  ultimately have "\<not> stable (m_state ?p)" by auto
  moreover have "phase_claim t = None"
  proof (rule ccontr)
    assume "phase_claim t \<noteq> None"
    then have "2 \<le> cnt (claims_on i) (sys_threads s)"
      using j Some k th by (intro cnt_two [of j _ k]) (auto simp: claims_on_def)
    with one show False by (simp add: of_bool_def split: if_splits)
  qed
  ultimately have "m_state p' = m_state ?p" using foreign by blast
  with Some st show ?thesis by (simp add: claim_ok_def)
qed (simp add: claim_ok_def)

lemma inv_act:
  assumes inv: "sys_inv s" and k: "k < length (sys_threads s)"
  shows "sys_inv (act env k s) \<and>
    g_maxStartedPorts (sys_globals (act env k s)) = g_maxStartedPorts (sys_globals s)"
proof -
  obtain i t where th: "sys_threads s ! k = (i, t)" by fastforce
  let ?p = "sys_ports s ! i" and ?g = "sys_globals s"
  obtain t' p' g' es where m: "micro env t ?p ?g = (t', p', g', es)"
    by (cases "micro env t ?p ?g") auto
  note i = thread_local(1) [OF inv k th]
  have "local_step t ?p ?g (t', p', g', es)"
    using thread_local(2) [OF inv k th, of env] by (simp only: m)
  note loc = this [unfolded local_step_def Let_def prod.case]
  have others: "claim_ok (snd (sys_threads s ! j)) p'"
    if "j < length (sys_threads s)" "j \<noteq> k" "fst (sys_threads s ! j) = i" for j
    by (rule claim_undisturbed [OF inv k th _ that]) (use loc in blast)
  have claims: "cnt (claims_on j) ((sys_threads s)[k := (i, t')]) =
      of_bool (\<not> stable (m_state ((sys_ports s)[i := p'] ! j)))" if "j < length (sys_ports s)" for j
    using inv that k th loc i
    by (cases "j = i") (auto simp: sys_inv_def cnt_update claims_on_def)
  have slots: "g_startedPorts g' =
      cnt (holds_slot \<circ> snd) ((sys_threads s)[k := (i, t')]) +
      cnt (started_phase \<circ> m_state) ((sys_ports s)[i := p'])"
    using inv k th loc i by (simp add: sys_inv_def cnt_update)
  have own: "claim_ok t' p'" using loc by blast
  have tasks: "fst u < length (sys_ports s) \<and> claim_ok (snd u) ((sys_ports s)[i := p'] ! fst u)"
    if "u \<in> set ((sys_threads s)[k := (i, t')])" for u
  proof -
    from that obtain j where j: "j < length (sys_threads s)" "u = (sys_threads s)[k := (i, t')] ! j"
      by (auto simp: in_set_conv_nth)
    show ?thesis
    proof (cases "j = k")
      case False
      with j have u: "u = sys_threads s ! j" "u \<in> set (sys_threads s)" by simp_all
      with inv have "fst u < length (sys_ports s)" "claim_ok (snd u) (sys_ports s ! fst u)"
        by (simp_all add: sys_inv_def)
      with others [OF j(1) False] u(1) i show ?thesis by (cases "fst u = i") simp_all
    qed (use j i own in simp)
  qed
  have "port_inv p'" using thread_local(3) [OF inv k th, of env] m by simp
  then have ports: "\<forall>q \<in> set ((sys_ports s)[i := p']). port_inv q"
    using inv by (auto simp: sys_inv_def dest!: set_update_subset_insert [THEN subsetD])
  show ?thesis
    using inv loc claims slots tasks ports by (simp add: sys_inv_def act_def th m)
qed

section \<open>Reachable systems\<close>

lemma step_inv: "sys_inv s \<Longrightarrow> sys_step s s' \<Longrightarrow>
   sys_inv s' \<and> g_maxStartedPorts (sys_globals s') = g_maxStartedPorts (sys_globals s)"
  by (auto elim!: sys_stepE simp: inv_act inv_invoke) (simp add: invoke_def)

interpretation sys: transition_system
  "\<lambda>s. \<exists>cfgs. s = boot_system limit cfgs" sys_step
  "\<lambda>s. sys_inv s \<and> g_maxStartedPorts (sys_globals s) = max 1 limit" for limit
proof unfold_locales
  fix s assume "\<exists>cfgs. s = boot_system limit cfgs"
  then show "sys_inv s \<and> g_maxStartedPorts (sys_globals s) = max 1 limit"
    by (auto simp: boot_inv) (simp add: boot_system_def setMaxConcurrentStartedPorts_def max_def)
next
  fix s t assume "sys_inv s \<and> g_maxStartedPorts (sys_globals s) = max 1 limit" and "sys_step s t"
  then show "sys_inv t \<and> g_maxStartedPorts (sys_globals t) = max 1 limit"
    using step_inv [of s t] by auto
qed

lemma reachable:
  assumes "sys_step\<^sup>*\<^sup>* (boot_system limit cfgs) s"
  shows "sys_inv s" and "g_maxStartedPorts (sys_globals s) = max 1 limit"
  using sys.reachable_inv [OF _ assms] by blast+

lemma sys_invD:
  assumes "sys_inv s"
  shows "p \<in> set (sys_ports s) \<Longrightarrow> port_inv p"
    and "th \<in> set (sys_threads s) \<Longrightarrow> fst th < length (sys_ports s)"
    and "th \<in> set (sys_threads s) \<Longrightarrow> claim_ok (snd th) (sys_ports s ! fst th)"
    and "i < length (sys_ports s) \<Longrightarrow>
      cnt (claims_on i) (sys_threads s) = of_bool (\<not> stable (m_state (sys_ports s ! i)))"
    and "g_startedPorts (sys_globals s) =
      cnt (holds_slot \<circ> snd) (sys_threads s) + cnt (started_phase \<circ> m_state) (sys_ports s)"
    and "g_startedPorts (sys_globals s) \<le> g_maxStartedPorts (sys_globals s)"
  using assms by (auto simp: sys_inv_def)

text \<open>A schedule names, action by action, the thread that runs next.\<close>

definition run_schedule :: "binder_env \<Rightarrow> nat list \<Rightarrow> system \<Rightarrow> system" where
  "run_schedule env ks s = fold (act env) ks s"

lemma act_threads: "length (sys_threads (act env k s)) = length (sys_threads s)"
  by (simp add: act_def Let_def case_prod_unfold)

lemma act_ports: "length (sys_ports (act env k s)) = length (sys_ports s)"
  by (simp add: act_def Let_def case_prod_unfold)

lemma run_schedule_reachable:
  "(\<And>k. k \<in> set ks \<Longrightarrow> k < length (sys_threads s)) \<Longrightarrow> sys_step\<^sup>*\<^sup>* s (run_schedule env ks s)"
proof (induction ks arbitrary: s)
  case (Cons k ks)
  then have "sys_step s (act env k s)" by (auto intro: sys_step.action)
  moreover have "sys_step\<^sup>*\<^sup>* (act env k s) (run_schedule env ks (act env k s))"
    using Cons.prems by (intro Cons.IH) (auto simp: act_threads)
  ultimately show ?case
    by (simp add: run_schedule_def converse_rtranclp_into_rtranclp)
qed (simp add: run_schedule_def)

lemma act_edge:
  assumes "sys_inv s" and "k < length (sys_threads s)" and "i < length (sys_ports s)"
  shows "m_state (sys_ports (act env k s) ! i) = m_state (sys_ports s ! i) \<or>
    lifecycle_edge (m_state (sys_ports s ! i)) (m_state (sys_ports (act env k s) ! i))"
proof -
  obtain j t where th: "sys_threads s ! k = (j, t)" by fastforce
  show ?thesis
    using thread_local(2) [OF assms(1,2) th, of env] assms(3) th
    by (cases "micro env t (sys_ports s ! j) (sys_globals s)"; cases "j = i")
      (auto simp: act_def local_step_def)
qed

text \<open>A system is at rest when every call has returned.\<close>

definition at_rest :: "system \<Rightarrow> bool" where
  "at_rest s \<longleftrightarrow> list_all (\<lambda>th. case snd th of Finished _ _ \<Rightarrow> True | _ \<Rightarrow> False) (sys_threads s)"

lemma at_rest_owns_nothing:
  assumes "at_rest s" and "th \<in> set (sys_threads s)"
  shows "phase_claim (snd th) = None \<and> \<not> holds_slot (snd th)"
  using assms by (cases "snd th") (auto simp: at_rest_def list_all_iff ownership_defs)

lemma rest_accounts:
  assumes "sys_step\<^sup>*\<^sup>* (boot_system limit cfgs) s" and "at_rest s"
  shows "g_startedPorts (sys_globals s) = cnt (\<lambda>p. m_state p = STARTED) (sys_ports s) \<and>
    (\<forall>p \<in> set (sys_ports s). stable (m_state p))"
proof -
  note inv = reachable(1) [OF assms(1)]
  have rest: "cnt (claims_on i) (sys_threads s) = 0" "cnt (holds_slot \<circ> snd) (sys_threads s) = 0" for i
    using at_rest_owns_nothing [OF assms(2)] by (auto simp: cnt_zero_iff claims_on_def)
  have st: "stable (m_state p)" if "p \<in> set (sys_ports s)" for p
    using sys_invD(4) [OF inv] rest(1) that by (auto simp: in_set_conv_nth)
  have "cnt (started_phase \<circ> m_state) (sys_ports s) = cnt (\<lambda>p. m_state p = STARTED) (sys_ports s)"
    by (intro cnt_cong) (auto simp: stable_cases dest!: st)
  with st sys_invD(5) [OF inv] rest(2) show ?thesis by simp
qed

section \<open>A concrete service\<close>

text \<open>
  One composite port with two supported properties, a limit of one started port, and the
  environment \<open>demo_env\<close> in which every Binder call succeeds. \<open>calls\<close> makes the calls of a scenario
  arrive; the schedule decides how they interleave.
\<close>

definition demo_ports :: "(int \<times> string \<times> string \<times> port_capabilities) list" where
  "demo_ports =
     [(0, ''CVBS1'', ''Composite input 1'',
       \<lparr>pc_supportedProperties = [SIGNAL_STRENGTH, SIGNAL_QUALITY], pc_propertyMetadata = None\<rparr>)]"

definition calls :: "nat \<Rightarrow> task list \<Rightarrow> system \<Rightarrow> system" where
  "calls i ts s = fold (invoke i) ts s"

definition scenario :: "task list \<Rightarrow> nat list \<Rightarrow> system" where
  "scenario ts ks = run_schedule demo_env ks (calls 0 ts (boot_system 1 demo_ports))"

lemma calls_reachable:
  "i < length (sys_ports s) \<Longrightarrow> list_all is_entry ts \<Longrightarrow>
   sys_step\<^sup>*\<^sup>* s (calls i ts s) \<and>
   length (sys_threads (calls i ts s)) = length (sys_threads s) + length ts"
proof (induction ts arbitrary: s)
  case (Cons t ts)
  have "sys_step s (invoke i t s)" using Cons.prems by (auto intro: sys_step.call)
  moreover have "sys_step\<^sup>*\<^sup>* (invoke i t s) (calls i ts (invoke i t s)) \<and>
      length (sys_threads (calls i ts (invoke i t s))) = length (sys_threads (invoke i t s)) + length ts"
    using Cons.prems by (intro Cons.IH) (simp_all add: invoke_def)
  ultimately show ?case
    by (auto simp: calls_def invoke_def intro: converse_rtranclp_into_rtranclp)
qed (simp add: calls_def)

lemma scenario_reachable:
  assumes "list_all is_entry ts" and "list_all (\<lambda>k. k < length ts) ks"
  shows "sys_step\<^sup>*\<^sup>* (boot_system 1 demo_ports) (scenario ts ks)"
proof -
  let ?b = "boot_system 1 demo_ports"
  have "0 < length (sys_ports ?b)" "sys_threads ?b = []"
    by (simp_all add: boot_system_def demo_ports_def)
  with calls_reachable [OF _ assms(1), of 0 ?b]
  have c: "sys_step\<^sup>*\<^sup>* ?b (calls 0 ts ?b)" "length (sys_threads (calls 0 ts ?b)) = length ts"
    by simp_all
  moreover have "sys_step\<^sup>*\<^sup>* (calls 0 ts ?b) (scenario ts ks)"
    unfolding scenario_def using assms(2) c(2)
    by (intro run_schedule_reachable) (simp add: list_all_iff)
  ultimately show ?thesis by simp
qed

text \<open>
  The scenarios used below. In all of them an observer registers, then a client opens the
  port and starts it.
\<close>

definition opening_calls :: "task list" where
  "opening_calls = [DataBegin (RegisterListener (Some 9)), OpenBegin 5, StartAcquire]"

definition started_schedule :: "nat list" where
  "started_schedule = replicate 2 0 @ replicate 7 1 @ replicate 10 2"

lemma opening_entries [simp]: "list_all is_entry opening_calls" "length opening_calls = 3"
  by (simp_all add: opening_calls_def is_entry_def)

lemma list_all_replicate [simp]: "list_all P (replicate n x) \<longleftrightarrow> n = 0 \<or> P x"
  by (induction n) auto

lemma started_schedule_below: "list_all (\<lambda>k. k < n) started_schedule \<longleftrightarrow> 2 < n"
  by (auto simp: started_schedule_def list_all_iff)

lemma started_reachable:
  "sys_step\<^sup>*\<^sup>* (boot_system 1 demo_ports) (scenario opening_calls started_schedule)"
  by (rule scenario_reachable) (simp_all add: started_schedule_below)

definition lost_cleanup :: system where
  "lost_cleanup =
     scenario (opening_calls @ [DeathBegin 1, StartAcquire])
       (started_schedule @ replicate 5 3 @ replicate 10 4 @ [3])"

definition overtaken_open :: system where
  "overtaken_open =
     scenario [DataBegin (RegisterListener (Some 9)), OpenBegin 5, DeathBegin 1]
       (replicate 2 0 @ replicate 5 1 @ replicate 5 2 @ replicate 2 1)"

section \<open>Properties\<close>

text \<open>
  C5: however calls interleave, the ports that are being started, are started or are being
  stopped never exceed the limit of the profile, and each holds one counted slot.
\<close>

theorem concurrent_start_limit:
  assumes "sys_step\<^sup>*\<^sup>* (boot_system limit cfgs) s"
  shows "cnt (started_phase \<circ> m_state) (sys_ports s) \<le> g_startedPorts (sys_globals s) \<and>
    g_startedPorts (sys_globals s) \<le> max 1 limit"
  using reachable [OF assms] sys_invD(5,6) [OF reachable(1) [OF assms]]
    cnt_nonneg [of "holds_slot \<circ> snd" "sys_threads s"] by simp

theorem concurrent_start_limit_witness:
  "let s = scenario opening_calls started_schedule in
   map m_state (sys_ports s) = [STARTED] \<and>
   cnt (started_phase \<circ> m_state) (sys_ports s) \<le> g_startedPorts (sys_globals s) \<and>
   g_startedPorts (sys_globals s) \<le> 1"
proof -
  have "map m_state (sys_ports (scenario opening_calls started_schedule)) = [STARTED]"
    by code_simp
  then show ?thesis
    using concurrent_start_limit [OF started_reachable] by (simp add: Let_def)
qed

text \<open>
  C6: no slot leaks. Once every call has returned, the count of started ports is exactly the
  number of ports in STARTED, whatever races between \<open>start\<close>, \<open>stop\<close> and death clean-ups
  took place, and every port is in a stable state.
\<close>

theorem no_slot_leak:
  assumes "sys_step\<^sup>*\<^sup>* (boot_system limit cfgs) s" and "at_rest s"
  shows "g_startedPorts (sys_globals s) = cnt (\<lambda>p. m_state p = STARTED) (sys_ports s) \<and>
    (\<forall>p \<in> set (sys_ports s). stable (m_state p))"
  by (rule rest_accounts [OF assms])

theorem no_slot_leak_witness:
  "let s = scenario opening_calls started_schedule in
   at_rest s \<and> g_startedPorts (sys_globals s) = cnt (\<lambda>p. m_state p = STARTED) (sys_ports s)"
proof -
  have "at_rest (scenario opening_calls started_schedule)" by code_simp
  with no_slot_leak [OF started_reachable] show ?thesis by (simp add: Let_def)
qed

text \<open>
  C7: a transition in flight has exactly one owner. A port in a transitional state is owned
  by exactly one thread, a port in a stable state by none, so no two threads ever drive
  transitions of the same port at once.
\<close>

theorem exclusive_transitions:
  assumes "sys_step\<^sup>*\<^sup>* (boot_system limit cfgs) s" and "i < length (sys_ports s)"
  shows "length (filter (\<lambda>th. fst th = i \<and> phase_claim (snd th) \<noteq> None) (sys_threads s)) =
      (if stable (m_state (sys_ports s ! i)) then 0 else 1) \<and>
    (\<forall>th \<in> set (sys_threads s). fst th = i \<longrightarrow> claim_ok (snd th) (sys_ports s ! i))"
proof -
  note inv = reachable(1) [OF assms(1)]
  have eq: "(\<lambda>th. fst th = i \<and> phase_claim (snd th) \<noteq> None) = claims_on i"
    by (rule ext) (simp add: claims_on_def)
  have "length (filter (claims_on i) (sys_threads s)) = (if stable (m_state (sys_ports s ! i)) then 0 else 1)"
    using sys_invD(4) [OF inv assms(2)] by (cases "stable (m_state (sys_ports s ! i))") (simp_all add: cnt_def)
  then show ?thesis
    unfolding eq using sys_invD(3) [OF inv] by blast
qed

theorem exclusive_transitions_witness:
  "let s = scenario [OpenBegin 5, OpenBegin 6] [0, 1] in
   map m_state (sys_ports s) = [OPENING] \<and>
   length (filter (\<lambda>th. fst th = 0 \<and> phase_claim (snd th) \<noteq> None) (sys_threads s)) = 1"
proof -
  let ?s = "scenario [OpenBegin 5, OpenBegin 6] [0, 1]"
  have r: "sys_step\<^sup>*\<^sup>* (boot_system 1 demo_ports) ?s"
    by (rule scenario_reachable) (simp_all add: is_entry_def)
  have m: "map m_state (sys_ports ?s) = [OPENING]" by code_simp
  then have l: "0 < length (sys_ports ?s)" and st: "m_state (sys_ports ?s ! 0) = OPENING"
    by (cases "sys_ports ?s"; simp)+
  show ?thesis
    unfolding Let_def using exclusive_transitions [OF r l] m st by simp
qed

text \<open>
  C17: in every reachable system every action of every thread moves each port along one edge
  of the lifecycle graph or leaves its state alone, and every port keeps its invariant: a
  controller and its listener are installed exactly while the port is not CLOSED, the
  status says active exactly in STARTED, and a resolution is reported only for a stable
  signal.
\<close>

theorem lifecycle_edges_only:
  assumes "sys_step\<^sup>*\<^sup>* (boot_system limit cfgs) s" and "k < length (sys_threads s)"
    and "i < length (sys_ports s)"
  shows "(m_state (sys_ports (act env k s) ! i) = m_state (sys_ports s ! i) \<or>
      lifecycle_edge (m_state (sys_ports s ! i)) (m_state (sys_ports (act env k s) ! i))) \<and>
    port_inv (sys_ports s ! i)"
  using act_edge [OF reachable(1) [OF assms(1)] assms(2,3)] sys_invD(1) [OF reachable(1) [OF assms(1)]]
    assms(3) by simp

theorem lifecycle_edges_only_witness:
  "let s = scenario [OpenBegin 5] [0, 0] in
   port_inv (sys_ports s ! 0) \<and>
   (m_state (sys_ports (act demo_env 0 s) ! 0) = m_state (sys_ports s ! 0) \<or>
    lifecycle_edge (m_state (sys_ports s ! 0)) (m_state (sys_ports (act demo_env 0 s) ! 0)))"
proof -
  let ?s = "scenario [OpenBegin 5] [0, 0]"
  have r: "sys_step\<^sup>*\<^sup>* (boot_system 1 demo_ports) ?s"
    by (rule scenario_reachable) (simp_all add: is_entry_def)
  have "length (sys_ports ?s) = 1" "length (sys_threads ?s) = 1" by code_simp+
  with lifecycle_edges_only [OF r, of 0 0 demo_env] show ?thesis by (simp add: Let_def)
qed


text \<open>
  C30: a deferred clean-up can be lost. A death notice takes a started port through the
  implicit \<open>stop\<close> and has published READY; a \<open>start\<close> of the same session runs to its end,
  its tail included; the close stage of the clean-up then finds STARTED, only sets the
  pending flag and returns. No call is left in flight, and the port stays STARTED for the
  session of the dead client with the clean-up pending and a started slot taken.
\<close>

theorem deferred_cleanup_can_be_lost:
  "sys_step\<^sup>*\<^sup>* (boot_system 1 demo_ports) lost_cleanup \<and>
   at_rest lost_cleanup \<and>
   map m_state (sys_ports lost_cleanup) = [STARTED] \<and>
   map m_deathCleanupPending (sys_ports lost_cleanup) = [True] \<and>
   map m_sessionEpoch (sys_ports lost_cleanup) = [1] \<and>
   g_startedPorts (sys_globals lost_cleanup) = 1"
proof -
  have "sys_step\<^sup>*\<^sup>* (boot_system 1 demo_ports) lost_cleanup"
    unfolding lost_cleanup_def
    by (rule scenario_reachable) (simp_all add: started_schedule_below is_entry_def)
  moreover have "at_rest lost_cleanup \<and> map m_state (sys_ports lost_cleanup) = [STARTED] \<and>
      map m_deathCleanupPending (sys_ports lost_cleanup) = [True] \<and>
      map m_sessionEpoch (sys_ports lost_cleanup) = [1] \<and>
      g_startedPorts (sys_globals lost_cleanup) = 1"
    by code_simp
  ultimately show ?thesis by blast
qed

text \<open>
  C31: the implicit close sequence can overtake the open sequence. A death notice that arrives
  when \<open>open\<close> has left its READY section, but has not published READY yet, runs its clean-up
  at once: the observer sees the port close before it sees it become ready.
\<close>

theorem close_events_can_overtake_open:
  "sys_step\<^sup>*\<^sup>* (boot_system 1 demo_ports) overtaken_open \<and>
   at_rest overtaken_open \<and>
   map m_state (sys_ports overtaken_open) = [CLOSED] \<and>
   seen_edges 9 (map snd (sys_log overtaken_open)) =
     [(CLOSED, OPENING), (READY, CLOSING), (CLOSING, CLOSED), (OPENING, READY)]"
proof -
  have "sys_step\<^sup>*\<^sup>* (boot_system 1 demo_ports) overtaken_open"
    unfolding overtaken_open_def
    by (rule scenario_reachable) (simp_all add: is_entry_def)
  moreover have "at_rest overtaken_open \<and> map m_state (sys_ports overtaken_open) = [CLOSED] \<and>
      seen_edges 9 (map snd (sys_log overtaken_open)) =
        [(CLOSED, OPENING), (READY, CLOSING), (CLOSING, CLOSED), (OPENING, READY)]"
    by code_simp
  ultimately show ?thesis by blast
qed

end
