(* ===== verification/Port_Announce.thy ===== *)
theory Port_Announce
  imports Port_Interleaving Port_Behaviour "HOL-Library.Multiset"
begin

text \<open>
  State events under all interleavings. A run is recorded together with the transitions the
  ports make, each with the observers registered at that moment. What the threads have sent,
  and what they still have to send, is then balanced against what has happened: no transition
  is lost, repeated or invented, though threads may send in another order than they made them.
\<close>

section \<open>Recorded runs\<close>

text \<open>A transition of a port: from, to, and the observers the section has copied.\<close>

type_synonym transition = "nat \<times> lifecycle \<times> lifecycle \<times> iface sp list"

record recorded =
  rec_system :: system
  rec_made :: "transition list"
  rec_withheld :: "transition list"

definition edge_made :: "nat \<Rightarrow> port \<Rightarrow> port \<Rightarrow> transition list" where
  "edge_made i p p' =
     (if m_state p' = m_state p then [] else [(i, m_state p, m_state p', m_eventListeners p)])"

text \<open>
  The transitions that the code does not announce: both edges of an open whose client cannot be
  linked to death.
\<close>

definition edge_withheld :: "binder_env \<Rightarrow> nat \<Rightarrow> task \<Rightarrow> port \<Rightarrow> transition list" where
  "edge_withheld env i t p =
     (case t of
        OpenLink l r old ls connected \<Rightarrow> if linkFails env l r then [(i, old, OPENING, ls)] else []
      | OpenRollback \<Rightarrow> [(i, m_state p, CLOSED, m_eventListeners p)]
      | _ \<Rightarrow> [])"

definition record_act :: "binder_env \<Rightarrow> nat \<Rightarrow> recorded \<Rightarrow> recorded" where
  "record_act env k r =
     (let s = rec_system r; (i, t) = sys_threads s ! k; s' = act env k s
      in \<lparr>rec_system = s',
          rec_made = rec_made r @ edge_made i (sys_ports s ! i) (sys_ports s' ! i),
          rec_withheld = rec_withheld r @ edge_withheld env i t (sys_ports s ! i)\<rparr>)"

inductive record_step :: "recorded \<Rightarrow> recorded \<Rightarrow> bool" where
  record_call: "i < length (sys_ports (rec_system r)) \<Longrightarrow> is_entry t \<Longrightarrow>
    record_step r (r\<lparr>rec_system := invoke i t (rec_system r)\<rparr>)"
| record_action: "k < length (sys_threads (rec_system r)) \<Longrightarrow> record_step r (record_act env k r)"

inductive_cases record_stepE: "record_step r r'"

definition boot_recorded :: "int \<Rightarrow> (int \<times> string \<times> string \<times> port_capabilities) list \<Rightarrow> recorded" where
  "boot_recorded limit cfgs = \<lparr>rec_system = boot_system limit cfgs, rec_made = [], rec_withheld = []\<rparr>"

section \<open>The balance\<close>

text \<open>The transitions a thread has made and has still to announce.\<close>

definition owed :: "nat \<times> task \<Rightarrow> transition list" where
  "owed th =
     (let i = fst th in
      case snd th of
        OpenLink l r old ls connected \<Rightarrow> [(i, old, OPENING, ls)]
      | OpenAnnounce l old ls connected \<Rightarrow> [(i, old, OPENING, ls)]
      | OpenReadyNotify old ls \<Rightarrow> [(i, old, READY, ls)]
      | CloseNotify old ls \<Rightarrow> [(i, old, CLOSING, ls)]
      | CloseUnlink b r old ls \<Rightarrow> [(i, old, CLOSED, ls)]
      | CloseClosedNotify old ls \<Rightarrow> [(i, old, CLOSED, ls)]
      | StartNotify old ls \<Rightarrow> [(i, old, STARTING, ls)]
      | StartStartedNotify old ls \<Rightarrow> [(i, old, STARTED, ls)]
      | StopNotify old ls \<Rightarrow> [(i, old, STOPPING, ls)]
      | StopReadyNotify old ls \<Rightarrow> [(i, old, READY, ls)]
      | DeathStopNotify e old ls \<Rightarrow> [(i, old, STOPPING, ls)]
      | DeathReadyNotify e old ls \<Rightarrow> [(i, old, READY, ls)]
      | DeathClosingNotify old ls \<Rightarrow> [(i, old, CLOSING, ls)]
      | DeathClosedNotify old ls \<Rightarrow> [(i, old, CLOSED, ls)]
      | _ \<Rightarrow> [])"

text \<open>The events about port \<open>i\<close> that observer \<open>l\<close> is due for some transitions, and those it was sent.\<close>

definition due :: "nat \<Rightarrow> iface \<Rightarrow> transition list \<Rightarrow> (lifecycle \<times> lifecycle) list" where
  "due i l h = concat (map (\<lambda>(j, a, b, ls). if j = i then replicate (count_list ls (Some l)) (a, b) else []) h)"

definition told :: "nat \<Rightarrow> iface \<Rightarrow> (nat \<times> effect) list \<Rightarrow> (lifecycle \<times> lifecycle) list" where
  "told i l log = seen_edges l (map snd (filter (\<lambda>e. fst e = i) log))"

definition port_edges :: "nat \<Rightarrow> transition list \<Rightarrow> (lifecycle \<times> lifecycle) list" where
  "port_edges i h = map (\<lambda>(j, a, b, ls). (a, b)) (filter (\<lambda>x. fst x = i) h)"

lemma due_simps [simp]:
  "due i l [] = []"
  "due i l (x # h) = (case x of (j, a, b, ls) \<Rightarrow> if j = i then replicate (count_list ls (Some l)) (a, b) else []) @ due i l h"
  "due i l (h @ h') = due i l h @ due i l h'"
  by (simp_all add: due_def case_prod_unfold)

lemma told_append:
  "told i l (log @ map (Pair j) es) = told i l log @ (if j = i then seen_edges l es else [])"
  by (simp add: told_def effect_simps filter_map comp_def)

text \<open>One action: what it sends and leaves to send is what it owed, made and did not withhold.\<close>

lemma batch_sends_no_state: "seen_edges l (notifyBatch env ls kvs) = []"
  by (induction kvs) (simp_all add: effect_simps)

lemma data_sends_no_state: "seen_edges l (snd (snd (data_section env d p))) = []"
proof (cases d)
  case (UtMessage gm kvp)
  then show ?thesis
    using handle_quiet [of l p gm env kvp] by (simp add: case_prod_unfold Let_def ut_quiet_def)
qed (simp_all add: case_prod_unfold Let_def effect_simps setPropertyFromController_def
    setPropertyMultiFromController_def resetMetricsFromController_def batch_sends_no_state
    split: option.split)

lemma set_state_edge:
  "s \<noteq> m_state p \<Longrightarrow> edge_made i p (fst (setStateLocked s p)) = [(i, m_state p, s, m_eventListeners p)]"
  "setStateLocked s p = (fst (setStateLocked s p), m_state p, m_eventListeners p)"
  by (simp_all add: edge_made_def setStateLocked_def)

lemma edge_made_same: "m_state p' = m_state p \<Longrightarrow> edge_made i p p' = []"
  by (simp add: edge_made_def)

text \<open>A thread whose notification is only its own to send carries state events in no other way.\<close>

definition sends_no_state :: "task \<Rightarrow> bool" where
  "sends_no_state t \<longleftrightarrow> (case t of DataNotify st es \<Rightarrow> \<forall>l. seen_edges l es = [] | _ \<Rightarrow> True)"

lemmas balance_defs = owed_def edge_withheld_def edge_made_def sends_no_state_def phase_claim_def claim_ok_def

lemma micro_balance:
  assumes "claim_ok t p" and "sends_no_state t"
  shows "(let (t', p', g', es) = micro env t p g in
    seen_edges l es @ due i l (owed (i, t')) @ due i l (edge_withheld env i t p) =
      due i l (owed (i, t)) @ due i l (edge_made i p p') \<and> sends_no_state t')"
proof (cases t)
  case (DataBegin d)
  then show ?thesis
    using data_section_frame(1) [of env d p] data_sends_no_state [of _ env d p]
    by (auto simp: balance_defs case_prod_unfold Let_def prod_eq_iff effect_simps)
qed (use assms in \<open>auto simp: balance_defs section_defs effect_simps case_prod_unfold Let_def
    setStateLocked_def split: option.split close_entry.split stop_stage.split close_stage.split\<close>)

text \<open>What a thread owes and withholds is about its own port, and so is what it makes.\<close>

lemma due_elsewhere:
  "j \<noteq> i \<Longrightarrow> due j l (owed (i, t)) = []" "j \<noteq> i \<Longrightarrow> due j l (edge_made i p p') = []"
  "j \<noteq> i \<Longrightarrow> due j l (edge_withheld env i t p) = []"
  by (cases t; simp add: owed_def edge_made_def edge_withheld_def)+

lemma port_edges_simps:
  "port_edges i [] = []" "port_edges i (h @ h') = port_edges i h @ port_edges i h'"
  "port_edges j (edge_made i p p') = (if j = i \<and> m_state p' \<noteq> m_state p then [(m_state p, m_state p')] else [])"
  by (auto simp: port_edges_def edge_made_def)

lemma owed_update:
  assumes "k < length ths"
  shows "mset (due j l (concat (map owed (ths[k := x])))) + mset (due j l (owed (ths ! k))) =
    mset (due j l (concat (map owed ths))) + mset (due j l (owed x))"
proof -
  have "ths = take k ths @ ths ! k # drop (Suc k) ths" using assms by (rule id_take_nth_drop)
  then have "due j l (concat (map owed ths)) =
      due j l (concat (map owed (take k ths))) @ due j l (owed (ths ! k)) @ due j l (concat (map owed (drop (Suc k) ths)))"
    by (metis (no_types, lifting) concat.simps(2) concat_append due_simps(3) list.simps(9) map_append)
  moreover have "due j l (concat (map owed (ths[k := x]))) =
      due j l (concat (map owed (take k ths))) @ due j l (owed x) @ due j l (concat (map owed (drop (Suc k) ths)))"
    using assms by (simp add: upd_conv_take_nth_drop)
  ultimately show ?thesis by simp
qed

lemma balance_books:
  fixes T :: "'a multiset"
  assumes "T + C + W = M" and "C' + D = C + D'" and "E + D' + V = D + N"
  shows "T + E + C' + (W + V) = M + N"
proof (rule multiset_eqI)
  fix x
  have "count T x + count C x + count W x = count M x" "count C' x + count D x = count C x + count D' x"
    "count E x + count D' x + count V x = count D x + count N x"
    using assms by (metis count_union)+
  then show "count (T + E + C' + (W + V)) x = count (M + N) x" by simp
qed

section \<open>The invariant of recorded runs\<close>

definition balanced :: "recorded \<Rightarrow> bool" where
  "balanced r \<longleftrightarrow>
     (\<forall>i l. mset (told i l (sys_log (rec_system r))) +
            mset (due i l (concat (map owed (sys_threads (rec_system r))))) +
            mset (due i l (rec_withheld r)) = mset (due i l (rec_made r)))"

definition record_inv :: "recorded \<Rightarrow> bool" where
  "record_inv r \<longleftrightarrow>
     sys_inv (rec_system r) \<and> balanced r \<and>
     (\<forall>th \<in> set (sys_threads (rec_system r)). sends_no_state (snd th)) \<and>
     (\<forall>i < length (sys_ports (rec_system r)).
        edge_path CLOSED (port_edges i (rec_made r)) (m_state (sys_ports (rec_system r) ! i)))"

lemma boot_recorded_inv: "record_inv (boot_recorded limit cfgs)"
  by (simp add: record_inv_def boot_recorded_def boot_inv balanced_def port_edges_simps)
    (simp add: boot_system_def told_def effect_simps)

lemma entry_owes_nothing: "is_entry t \<Longrightarrow> owed (i, t) = [] \<and> sends_no_state t"
  by (cases t) (simp_all add: is_entry_def owed_def sends_no_state_def)

lemma record_call_inv:
  assumes "record_inv r" and "i < length (sys_ports (rec_system r))" and "is_entry t"
  shows "record_inv (r\<lparr>rec_system := invoke i t (rec_system r)\<rparr>)"
  using assms inv_invoke [of "rec_system r" i t] entry_owes_nothing [OF assms(3), of i]
  by (auto simp: record_inv_def balanced_def) (auto simp: invoke_def)

lemma record_act_inv:
  assumes "record_inv r" and "k < length (sys_threads (rec_system r))"
  shows "record_inv (record_act env k r)"
proof -
  let ?s = "rec_system r"
  obtain i t where th: "sys_threads ?s ! k = (i, t)" by fastforce
  let ?p = "sys_ports ?s ! i"
  obtain t' p' g' es where m: "micro env t ?p (sys_globals ?s) = (t', p', g', es)"
    by (cases "micro env t ?p (sys_globals ?s)") auto
  have mem: "(i, t) \<in> set (sys_threads ?s)" using th assms(2) by (metis nth_mem)
  have inv: "sys_inv ?s" and quiet: "\<forall>th \<in> set (sys_threads ?s). sends_no_state (snd th)"
    using assms(1) by (simp_all add: record_inv_def)
  have i: "i < length (sys_ports ?s)" and ok: "claim_ok t ?p"
    using sys_invD(2,3) [OF inv mem] by simp_all
  have "sends_no_state t" using quiet mem by force
  note step = micro_balance [OF ok this, of env "sys_globals ?s" _ i, unfolded m Let_def, simplified]
  have act: "act env k ?s = ?s\<lparr>sys_ports := (sys_ports ?s)[i := p'], sys_globals := g',
      sys_threads := (sys_threads ?s)[k := (i, t')], sys_log := sys_log ?s @ map (Pair i) es\<rparr>"
    by (simp add: act_def th m)
  have made: "record_act env k r = \<lparr>rec_system = act env k ?s, rec_made = rec_made r @ edge_made i ?p p',
      rec_withheld = rec_withheld r @ edge_withheld env i t ?p\<rparr>"
    using i by (simp add: record_act_def th act Let_def)
  have "balanced (record_act env k r)"
    unfolding balanced_def
  proof (intro allI)
    fix j l
    have old: "mset (told j l (sys_log ?s)) + mset (due j l (concat (map owed (sys_threads ?s)))) +
        mset (due j l (rec_withheld r)) = mset (due j l (rec_made r))"
      using assms(1) by (simp add: record_inv_def balanced_def)
    note upd = owed_update [OF assms(2), of j l "(i, t')", unfolded th]
    show "mset (told j l (sys_log (rec_system (record_act env k r)))) +
        mset (due j l (concat (map owed (sys_threads (rec_system (record_act env k r)))))) +
        mset (due j l (rec_withheld (record_act env k r))) = mset (due j l (rec_made (record_act env k r)))"
    proof (cases "j = i")
      case True
      have "mset (seen_edges l es) + mset (due j l (owed (i, t'))) + mset (due j l (edge_withheld env i t ?p)) =
          mset (due j l (owed (i, t))) + mset (due j l (edge_made i ?p p'))"
        using arg_cong [OF conjunct1 [OF step], of mset] True by (simp add: add.assoc)
      from balance_books [OF old upd this] True show ?thesis
        by (simp add: made act told_append)
    next
      case False
      with old upd show ?thesis by (simp add: made act told_append due_elsewhere)
    qed
  qed
  moreover have "sys_inv (act env k ?s)" using inv_act [OF inv assms(2)] by blast
  moreover have "\<forall>th \<in> set (sys_threads (act env k ?s)). sends_no_state (snd th)"
    using quiet step set_update_subset_insert [of "sys_threads ?s" k "(i, t')"] by (fastforce simp: act)
  moreover have "edge_path CLOSED (port_edges j (rec_made r @ edge_made i ?p p')) (m_state (sys_ports (act env k ?s) ! j))"
    if "j < length (sys_ports ?s)" for j
    using that assms(1) act_edge [OF inv assms(2) that, of env] i
    by (cases "j = i") (auto simp: record_inv_def port_edges_simps edge_path_append act)
  ultimately show ?thesis
    by (simp add: record_inv_def made act_ports)
qed

interpretation recording: transition_system
  "\<lambda>r. \<exists>limit cfgs. r = boot_recorded limit cfgs" record_step record_inv
  by unfold_locales (auto simp: boot_recorded_inv record_call_inv record_act_inv elim: record_stepE)

text \<open>Recording restricts nothing: it follows every run of the system.\<close>

interpretation records: history sys_step record_step rec_system
proof
  fix r r' :: recorded assume "record_step r r'"
  then show "sys_step (rec_system r) (rec_system r')"
    by cases (auto simp: record_act_def Let_def case_prod_unfold intro: sys_step.intros)
next
  fix r :: recorded and s assume "sys_step (rec_system r) s"
  then show "\<exists>r'. record_step r r' \<and> rec_system r' = s"
  proof cases
    case (call i t)
    then show ?thesis using record_call [of i r t] by auto
  next
    case (action k env)
    then show ?thesis using record_action [of k r env] by (auto simp: record_act_def Let_def case_prod_unfold)
  qed
qed

lemma resting_owes_nothing: "at_rest s \<Longrightarrow> concat (map owed (sys_threads s)) = []"
  by (auto simp: at_rest_def list_all_iff owed_def split: task.splits)

section \<open>What the balance leaves open\<close>

text \<open>
  Counts do not order. A start reads the signal status, and later the telemetry, under the mutex
  and sends them after it has released it. A report of the control plane that falls in between
  is sent first: the client and the observer are left with the older value, and nothing
  corrects it.
\<close>

definition racing :: "nat list \<Rightarrow> system" where
  "racing ks =
     scenario (opening_calls @ [DataBegin (UtMessage scan_map (Some (signal_message ''STABLE'')))])
       (replicate 2 0 @ replicate 7 1 @ ks)"

definition late_status :: system where
  "late_status = racing (replicate 4 2 @ replicate 2 3 @ replicate 6 2)"

definition late_telemetry :: system where
  "late_telemetry = racing (replicate 8 2 @ replicate 2 3 @ replicate 2 2)"

lemma racing_reachable:
  assumes "list_all (\<lambda>k. k < 4) ks"
  shows "sys_step\<^sup>*\<^sup>* (boot_system 1 demo_ports) (racing ks)"
  unfolding racing_def using assms by (intro scenario_reachable) (simp_all add: is_entry_def)

lemma late_reachable:
  "sys_step\<^sup>*\<^sup>* (boot_system 1 demo_ports) late_status"
  "sys_step\<^sup>*\<^sup>* (boot_system 1 demo_ports) late_telemetry"
  by (simp_all add: late_status_def late_telemetry_def racing_reachable)

section \<open>Properties\<close>

text \<open>
  C11: no transition is lost, repeated or invented. In every recorded run, and every run can be
  recorded, the transitions of a port form a legal path from CLOSED to its state; the state
  events an observer has been sent about a port, together with those that threads still have
  to send, are, counted with repetition, the transitions the port made while the observer was
  registered, but for the two of an open whose client cannot be linked to death. When all
  calls have returned nothing is left to send.
\<close>

theorem transitions_are_announced_once:
  assumes "record_step\<^sup>*\<^sup>* (boot_recorded limit cfgs) r"
  shows "let s = rec_system r in
    sys_step\<^sup>*\<^sup>* (boot_system limit cfgs) s \<and>
    (\<forall>s'. sys_step\<^sup>*\<^sup>* s s' \<longrightarrow> (\<exists>r'. record_step\<^sup>*\<^sup>* r r' \<and> rec_system r' = s')) \<and>
    (\<forall>i < length (sys_ports s).
       edge_path CLOSED (port_edges i (rec_made r)) (m_state (sys_ports s ! i))) \<and>
    (\<forall>i l. mset (told i l (sys_log s)) + mset (due i l (concat (map owed (sys_threads s)))) +
       mset (due i l (rec_withheld r)) = mset (due i l (rec_made r))) \<and>
    (at_rest s \<longrightarrow> (\<forall>i l. mset (told i l (sys_log s)) + mset (due i l (rec_withheld r)) =
       mset (due i l (rec_made r))))"
proof -
  have inv: "record_inv r" using recording.reachable_inv assms by blast
  then have bal: "mset (told i l (sys_log (rec_system r))) +
      mset (due i l (concat (map owed (sys_threads (rec_system r))))) +
      mset (due i l (rec_withheld r)) = mset (due i l (rec_made r))" for i l
    by (simp add: record_inv_def balanced_def)
  have "mset (told i l (sys_log (rec_system r))) + mset (due i l (rec_withheld r)) = mset (due i l (rec_made r))"
    if "at_rest (rec_system r)" for i l
    using bal [of i l] by (simp add: resting_owes_nothing [OF that])
  then show ?thesis
    using inv bal records.forget_steps [OF assms] records.extend_steps [of r]
    by (simp add: record_inv_def boot_recorded_def)
qed

text \<open>The schedule in which a clean-up overtakes the open: the order differs, the count does not.\<close>

theorem transitions_are_announced_once_witness:
  "\<exists>r. record_step\<^sup>*\<^sup>* (boot_recorded 1 demo_ports) r \<and> rec_system r = overtaken_open \<and>
     mset (due 0 9 (rec_made r)) =
       mset [(CLOSED, OPENING), (READY, CLOSING), (CLOSING, CLOSED), (OPENING, READY)] + mset (due 0 9 (rec_withheld r))"
proof -
  have "sys_step\<^sup>*\<^sup>* (boot_system 1 demo_ports) overtaken_open"
    unfolding overtaken_open_def by (rule scenario_reachable) (simp_all add: is_entry_def)
  then obtain r where r: "record_step\<^sup>*\<^sup>* (boot_recorded 1 demo_ports) r" "rec_system r = overtaken_open"
    using records.extend_steps [of "boot_recorded 1 demo_ports"] by (auto simp: boot_recorded_def)
  have log: "at_rest overtaken_open \<and> told 0 9 (sys_log overtaken_open) =
      [(CLOSED, OPENING), (READY, CLOSING), (CLOSING, CLOSED), (OPENING, READY)]"
    by code_simp
  have "mset (told 0 9 (sys_log overtaken_open)) + mset (due 0 9 (rec_withheld r)) = mset (due 0 9 (rec_made r))"
    using transitions_are_announced_once [OF r(1), unfolded r(2) Let_def] log by blast
  with log r show ?thesis by (intro exI [of _ r]) simp
qed

text \<open>
  C32: a start can overwrite a newer report. Two schedules of the calls of one client and a
  control-plane message that reports STABLE: all calls return, the port knows the signal as STABLE
  with quality 85, and yet the last thing the client was told is NO_SIGNAL, or the last thing the
  observer was told is a quality of zero.
\<close>

theorem start_can_overwrite_newer_report:
  "sys_step\<^sup>*\<^sup>* (boot_system 1 demo_ports) late_status \<and> at_rest late_status \<and>
   map (ps_signalStatus \<circ> m_cachedStatus) (sys_ports late_status) = [STABLE] \<and>
   controller_callbacks (map snd (sys_log late_status)) =
     [ConnectionChanged 5 False, SignalStatusChanged 5 STABLE, SignalStatusChanged 5 NO_SIGNAL] \<and>
   sys_step\<^sup>*\<^sup>* (boot_system 1 demo_ports) late_telemetry \<and> at_rest late_telemetry \<and>
   map (\<lambda>p. m_cachedProperties p SIGNAL_QUALITY) (sys_ports late_telemetry) = [Some (makeInt32 85)] \<and>
   seen_updates 9 (map snd (sys_log late_telemetry)) =
     [(SIGNAL_STRENGTH, makeInt64 (-20)), (SIGNAL_QUALITY, makeInt32 85),
      (SIGNAL_STRENGTH, makeInt64 0), (SIGNAL_QUALITY, makeInt32 0)]"
proof -
  have "at_rest late_status"
    "map (ps_signalStatus \<circ> m_cachedStatus) (sys_ports late_status) = [STABLE]"
    "controller_callbacks (map snd (sys_log late_status)) =
       [ConnectionChanged 5 False, SignalStatusChanged 5 STABLE, SignalStatusChanged 5 NO_SIGNAL]"
    by code_simp+
  moreover have "at_rest late_telemetry"
    "map (\<lambda>p. m_cachedProperties p SIGNAL_QUALITY) (sys_ports late_telemetry) = [Some (makeInt32 85)]"
    "seen_updates 9 (map snd (sys_log late_telemetry)) =
       [(SIGNAL_STRENGTH, makeInt64 (-20)), (SIGNAL_QUALITY, makeInt32 85),
        (SIGNAL_STRENGTH, makeInt64 0), (SIGNAL_QUALITY, makeInt32 0)]"
    by code_simp+
  ultimately show ?thesis using late_reachable by blast
qed

end
