(* ===== verification/Port_Replies.thy ===== *)
theory Port_Replies
  imports Port_Interleaving
begin

text \<open>
  What a reply means under all interleavings. Next to the system a run now carries, for each
  call, the entry point, the lifecycle edges that the thread of the call has made so far, whether
  it has written its port at all, what it saw before each of its actions, and whether it took a
  deferred clean-up. When the call returns, its status and the result of a close say exactly
  which edges it has made, and a refusal is justified by what the call last saw, whatever the
  other threads did in between.
\<close>

section \<open>Calls and their history\<close>

type_synonym edges = "(lifecycle \<times> lifecycle) list"

type_synonym look = "binder_env \<times> port \<times> globals"

record call_record =
  cr_entry :: task
  cr_edges :: edges
  cr_wrote :: bool
  cr_seen :: "look list"
  cr_deferred :: bool

record answered =
  an_system :: system
  an_calls :: "call_record list"

definition note_action :: "task \<Rightarrow> look \<Rightarrow> port \<Rightarrow> call_record \<Rightarrow> call_record" where
  "note_action t look p' c =
     (let p = fst (snd look) in
      c\<lparr>cr_edges := cr_edges c @ (if m_state p' = m_state p then [] else [(m_state p, m_state p')]),
        cr_wrote := (cr_wrote c \<or> p' \<noteq> p),
        cr_seen := cr_seen c @ (case t of Finished _ _ \<Rightarrow> [] | _ \<Rightarrow> [look]),
        cr_deferred := (cr_deferred c \<or> (case t of PendingCheck \<Rightarrow> m_deathCleanupPending p | _ \<Rightarrow> False))\<rparr>)"

definition new_record :: "task \<Rightarrow> call_record" where
  "new_record t = \<lparr>cr_entry = t, cr_edges = [], cr_wrote = False, cr_seen = [], cr_deferred = False\<rparr>"

definition answer_act :: "binder_env \<Rightarrow> nat \<Rightarrow> answered \<Rightarrow> answered" where
  "answer_act env k a =
     (let s = an_system a; (i, t) = sys_threads s ! k; s' = act env k s
      in \<lparr>an_system = s',
          an_calls = (an_calls a)[k :=
            note_action t (env, sys_ports s ! i, sys_globals s) (sys_ports s' ! i) (an_calls a ! k)]\<rparr>)"

inductive answer_step :: "answered \<Rightarrow> answered \<Rightarrow> bool" where
  answer_call: "i < length (sys_ports (an_system a)) \<Longrightarrow> is_entry t \<Longrightarrow>
    answer_step a \<lparr>an_system = invoke i t (an_system a), an_calls = an_calls a @ [new_record t]\<rparr>"
| answer_action: "k < length (sys_threads (an_system a)) \<Longrightarrow> answer_step a (answer_act env k a)"

inductive_cases answer_stepE: "answer_step a a'"

definition boot_answered :: "int \<Rightarrow> (int \<times> string \<times> string \<times> port_capabilities) list \<Rightarrow> answered" where
  "boot_answered limit cfgs = \<lparr>an_system = boot_system limit cfgs, an_calls = []\<rparr>"

interpretation answers: history sys_step answer_step an_system
proof
  fix a a' :: answered assume "answer_step a a'"
  then show "sys_step (an_system a) (an_system a')"
    by cases (auto simp: answer_act_def Let_def case_prod_unfold intro: sys_step.intros)
next
  fix a :: answered and s assume "sys_step (an_system a) s"
  then show "\<exists>a'. answer_step a a' \<and> an_system a' = s"
  proof cases
    case (call i t)
    then show ?thesis using answer_call [of i a t] by fastforce
  next
    case (action k env)
    then show ?thesis using answer_action [of k a env] by (auto simp: answer_act_def Let_def case_prod_unfold)
  qed
qed

section \<open>What a reply promises\<close>

definition open_edges :: edges where "open_edges = [(CLOSED, OPENING), (OPENING, READY)]"
definition start_edges :: edges where "start_edges = [(READY, STARTING), (STARTING, STARTED)]"
definition stop_edges :: edges where "stop_edges = [(STARTED, STOPPING), (STOPPING, READY)]"
definition close_edges :: edges where "close_edges = [(READY, CLOSING), (CLOSING, CLOSED)]"

text \<open>A clean-up for a dead client stops the port, or closes it, or both, or neither.\<close>

definition cleanup_edges :: "edges \<Rightarrow> bool" where
  "cleanup_edges es \<longleftrightarrow> es \<in> {[], stop_edges, close_edges, stop_edges @ close_edges}"

text \<open>
  The calls that end with a look for a deferred clean-up, and what they have done before it.
\<close>

definition main_edges :: "task \<Rightarrow> edges option" where
  "main_edges entry =
     (case entry of
        OpenBegin _ \<Rightarrow> Some open_edges
      | StartAcquire \<Rightarrow> Some start_edges
      | StopBegin \<Rightarrow> Some stop_edges
      | DeathBegin _ \<Rightarrow> Some []
      | _ \<Rightarrow> None)"

text \<open>
  Turned down: nothing done, for a reason that holds of the port and the count the call saw last.
\<close>

definition saw_last :: "call_record \<Rightarrow> (port \<Rightarrow> globals \<Rightarrow> bool) \<Rightarrow> bool" where
  "saw_last c reason \<longleftrightarrow> (\<exists>looks env p g. cr_seen c = looks @ [(env, p, g)] \<and> reason p g)"

definition turned_down :: "call_record \<Rightarrow> (port \<Rightarrow> globals \<Rightarrow> bool) \<Rightarrow> bool" where
  "turned_down c reason \<longleftrightarrow> cr_edges c = [] \<and> \<not> cr_wrote c \<and> saw_last c reason"

text \<open>Clean-up edges of its own follow only in a call that took a deferred clean-up.\<close>

definition cleaning :: "call_record \<Rightarrow> bool" where
  "cleaning c \<longleftrightarrow> cr_deferred c \<or> (\<exists>e. cr_entry c = DeathBegin e)"

definition carried_out :: "call_record \<Rightarrow> bool" where
  "carried_out c \<longleftrightarrow>
     (\<exists>es tail. main_edges (cr_entry c) = Some es \<and> cr_edges c = es @ tail \<and> cleanup_edges tail \<and>
        (tail = [] \<or> cleaning c))"

definition owned_at_first :: "call_record \<Rightarrow> controller \<Rightarrow> bool" where
  "owned_at_first c x \<longleftrightarrow>
     (\<exists>env p g looks. cr_seen c = (env, p, g) # looks \<and> m_state p = READY \<and> m_controller p = Some x)"

definition link_failed :: "call_record \<Rightarrow> iface \<Rightarrow> bool" where
  "link_failed c l \<longleftrightarrow> (\<exists>look e. look \<in> set (cr_seen c) \<and> linkFails (fst look) l (Some e))"

definition reply_ok :: "call_record \<Rightarrow> status \<Rightarrow> bool option \<Rightarrow> bool" where
  "reply_ok c st ret \<longleftrightarrow>
     (case cr_entry c of
        OpenBegin l \<Rightarrow> ret = None \<and>
          (st = StatusOk \<and> carried_out c \<or>
           st = StatusEx EX_ILLEGAL_STATE \<and>
             (turned_down c (\<lambda>p g. m_state p \<noteq> CLOSED) \<or>
              cr_edges c = [(CLOSED, OPENING), (OPENING, CLOSED)] \<and> link_failed c l))
      | CloseBegin x \<Rightarrow>
          st = StatusOk \<and> ret = Some True \<and> cr_edges c = close_edges \<and> owned_at_first c x \<or>
          st = StatusOk \<and> ret = Some False \<and>
            turned_down c (\<lambda>p g. m_state p = READY \<and> m_controller p \<noteq> Some x) \<or>
          st = StatusEx EX_ILLEGAL_STATE \<and> ret = None \<and> turned_down c (\<lambda>p g. m_state p \<noteq> READY)
      | StartAcquire \<Rightarrow> ret = None \<and>
          (st = StatusOk \<and> carried_out c \<or>
           st = StatusEx EX_ILLEGAL_STATE \<and>
             turned_down c (\<lambda>p g. m_state p \<noteq> READY \<or> g_maxStartedPorts g \<le> g_startedPorts g))
      | StopBegin \<Rightarrow> ret = None \<and>
          (st = StatusOk \<and> carried_out c \<or>
           st = StatusEx EX_ILLEGAL_STATE \<and> turned_down c (\<lambda>p g. m_state p \<noteq> STARTED))
      | DeathBegin _ \<Rightarrow> ret = None \<and> st = StatusOk \<and> carried_out c
      | DataBegin _ \<Rightarrow> ret = None \<and> cr_edges c = [] \<and> (st = StatusOk \<or> \<not> cr_wrote c)
      | _ \<Rightarrow> False)"

section \<open>Progress\<close>

text \<open>The edges behind a thread at each place of its code.\<close>

definition behind :: "call_record \<Rightarrow> edges \<Rightarrow> bool" where
  "behind c es \<longleftrightarrow> (\<exists>m. main_edges (cr_entry c) = Some m \<and> cr_edges c = m @ es)"

definition tidying :: "call_record \<Rightarrow> edges \<Rightarrow> bool" where
  "tidying c es \<longleftrightarrow> behind c es \<and> cleaning c"

definition closing :: "call_record \<Rightarrow> edges \<Rightarrow> bool" where
  "closing c es \<longleftrightarrow> (\<exists>x. cr_entry c = CloseBegin x \<and> owned_at_first c x) \<and> cr_edges c = es"

definition untouched :: "call_record \<Rightarrow> bool" where
  "untouched c \<longleftrightarrow> cr_edges c = [] \<and> \<not> cr_wrote c"

definition on_course :: "call_record \<Rightarrow> task \<Rightarrow> bool" where
  "on_course c t \<longleftrightarrow>
     (case t of
        OpenBegin l \<Rightarrow> cr_entry c = t \<and> untouched c
      | OpenLink l _ _ _ _ \<Rightarrow> cr_entry c = OpenBegin l \<and> cr_edges c = [(CLOSED, OPENING)]
      | OpenRollback \<Rightarrow> (\<exists>l. cr_entry c = OpenBegin l \<and> link_failed c l) \<and> cr_edges c = [(CLOSED, OPENING)]
      | OpenAnnounce _ _ _ _ \<Rightarrow> (\<exists>l. cr_entry c = OpenBegin l) \<and> cr_edges c = [(CLOSED, OPENING)]
      | OpenConnection _ _ \<Rightarrow> (\<exists>l. cr_entry c = OpenBegin l) \<and> cr_edges c = [(CLOSED, OPENING)]
      | OpenReady \<Rightarrow> (\<exists>l. cr_entry c = OpenBegin l) \<and> cr_edges c = [(CLOSED, OPENING)]
      | OpenReadyNotify _ _ \<Rightarrow> (\<exists>l. cr_entry c = OpenBegin l) \<and> cr_edges c = open_edges
      | CloseBegin _ \<Rightarrow> cr_entry c = t \<and> untouched c \<and> cr_seen c = []
      | CloseNotify _ _ \<Rightarrow> closing c [(READY, CLOSING)]
      | CloseFinish \<Rightarrow> closing c [(READY, CLOSING)]
      | CloseUnlink _ _ _ _ \<Rightarrow> closing c close_edges
      | CloseClosedNotify _ _ \<Rightarrow> closing c close_edges
      | StartAcquire \<Rightarrow> cr_entry c = t \<and> untouched c
      | StartEnter \<Rightarrow> cr_entry c = StartAcquire \<and> untouched c
      | StartNotify _ _ \<Rightarrow> cr_entry c = StartAcquire \<and> cr_edges c = [(READY, STARTING)]
      | StartReadSignal \<Rightarrow> cr_entry c = StartAcquire \<and> cr_edges c = [(READY, STARTING)]
      | StartSignalNotify _ _ \<Rightarrow> cr_entry c = StartAcquire \<and> cr_edges c = [(READY, STARTING)]
      | StartStarted \<Rightarrow> cr_entry c = StartAcquire \<and> cr_edges c = [(READY, STARTING)]
      | StartStartedNotify _ _ \<Rightarrow> cr_entry c = StartAcquire \<and> cr_edges c = start_edges
      | StartBaseline \<Rightarrow> cr_entry c = StartAcquire \<and> cr_edges c = start_edges
      | StartTelemetry _ _ _ \<Rightarrow> cr_entry c = StartAcquire \<and> cr_edges c = start_edges
      | StopBegin \<Rightarrow> cr_entry c = t \<and> untouched c
      | StopNotify _ _ \<Rightarrow> cr_entry c = StopBegin \<and> cr_edges c = [(STARTED, STOPPING)]
      | StopReady \<Rightarrow> cr_entry c = StopBegin \<and> cr_edges c = [(STARTED, STOPPING)]
      | StopReadyNotify _ _ \<Rightarrow> cr_entry c = StopBegin \<and> cr_edges c = stop_edges
      | StopRelease \<Rightarrow> cr_entry c = StopBegin \<and> cr_edges c = stop_edges
      | PendingCheck \<Rightarrow> behind c []
      | DeathBegin _ \<Rightarrow> tidying c []
      | DeathStopNotify _ _ _ \<Rightarrow> tidying c [(STARTED, STOPPING)]
      | DeathReady _ \<Rightarrow> tidying c [(STARTED, STOPPING)]
      | DeathReadyNotify _ _ _ \<Rightarrow> tidying c stop_edges
      | DeathRelease _ \<Rightarrow> tidying c stop_edges
      | DeathClosing _ \<Rightarrow> tidying c [] \<or> tidying c stop_edges
      | DeathClosingNotify _ _ \<Rightarrow> tidying c [(READY, CLOSING)] \<or> tidying c (stop_edges @ [(READY, CLOSING)])
      | DeathFinish \<Rightarrow> tidying c [(READY, CLOSING)] \<or> tidying c (stop_edges @ [(READY, CLOSING)])
      | DeathClosedNotify _ _ \<Rightarrow> tidying c close_edges \<or> tidying c (stop_edges @ close_edges)
      | DataBegin _ \<Rightarrow> cr_entry c = t \<and> untouched c
      | DataNotify st _ \<Rightarrow> (\<exists>d. cr_entry c = DataBegin d) \<and> cr_edges c = [] \<and> (st = StatusOk \<or> \<not> cr_wrote c)
      | Finished st ret \<Rightarrow> reply_ok c st ret)"

lemma note_simps [simp]:
  "cr_entry (note_action t (env, p, g) p' c) = cr_entry c"
  "cr_edges (note_action t (env, p, g) p' c) =
     cr_edges c @ (if m_state p' = m_state p then [] else [(m_state p, m_state p')])"
  "cr_wrote (note_action t (env, p, g) p' c) \<longleftrightarrow> cr_wrote c \<or> p' \<noteq> p"
  "cr_seen (note_action t (env, p, g) p' c) =
     cr_seen c @ (case t of Finished _ _ \<Rightarrow> [] | _ \<Rightarrow> [(env, p, g)])"
  "cr_deferred (note_action t (env, p, g) p' c) \<longleftrightarrow>
     cr_deferred c \<or> (case t of PendingCheck \<Rightarrow> m_deathCleanupPending p | _ \<Rightarrow> False)"
  by (simp_all add: note_action_def Let_def)

lemma note_finished: "note_action (Finished st ret) (env, p, g) p c = c"
  by (simp add: note_action_def Let_def)

lemma kept_by_note:
  "cleaning c \<Longrightarrow> cleaning (note_action t look p' c)"
  "owned_at_first c x \<Longrightarrow> owned_at_first (note_action t look p' c) x"
  "link_failed c l \<Longrightarrow> link_failed (note_action t look p' c) l"
  by (cases look; fastforce simp: cleaning_def owned_at_first_def link_failed_def)+

lemma behind_note:
  "m_state p' = m_state p \<Longrightarrow> behind (note_action t (env, p, g) p' c) es \<longleftrightarrow> behind c es"
  "behind c es \<Longrightarrow> m_state p' \<noteq> m_state p \<Longrightarrow>
   behind (note_action t (env, p, g) p' c) (es @ [(m_state p, m_state p')])"
  by (auto simp: behind_def)

lemma tidying_stays:
  "tidying c es \<Longrightarrow> m_state p' = m_state p \<Longrightarrow> tidying (note_action t (env, p, g) p' c) es"
  by (simp add: tidying_def behind_note kept_by_note)

lemma tidying_edge:
  "tidying c es \<Longrightarrow> m_state p = a \<Longrightarrow> m_state p' = b \<Longrightarrow> a \<noteq> b \<Longrightarrow>
   tidying (note_action t (env, p, g) p' c) (es @ [(a, b)])"
  using behind_note(2) [of c es p' p] by (auto simp: tidying_def kept_by_note)

lemma closing_note:
  "closing c es \<Longrightarrow> m_state p' = m_state p \<Longrightarrow> closing (note_action t (env, p, g) p' c) es"
  "closing c es \<Longrightarrow> m_state p = a \<Longrightarrow> m_state p' = b \<Longrightarrow> a \<noteq> b \<Longrightarrow>
   closing (note_action t (env, p, g) p' c) (es @ [(a, b)])"
  by (auto simp: closing_def kept_by_note)

lemma link_failed_note:
  assumes "linkFails env l r" and "case t of Finished _ _ \<Rightarrow> False | _ \<Rightarrow> True"
  shows "link_failed (note_action t (env, p, g) p' c) l"
proof -
  have "(env, p, g) \<in> set (cr_seen (note_action t (env, p, g) p' c))" using assms(2) by (cases t) simp_all
  moreover obtain e where "r = Some e" using assms(1) by (cases r) (auto simp: linkFails_def split: option.splits)
  ultimately show ?thesis using assms(1) unfolding link_failed_def by (metis fst_conv)
qed

lemma turned_down_note:
  "untouched c \<Longrightarrow> reason p g \<Longrightarrow> (case t of Finished _ _ \<Rightarrow> False | _ \<Rightarrow> True) \<Longrightarrow>
   turned_down (note_action t (env, p, g) p c) reason"
  by (cases t) (auto simp: turned_down_def untouched_def saw_last_def)

lemma refused_data_writes_nothing:
  "fst (data_section env d p) \<noteq> StatusOk \<Longrightarrow> fst (snd (data_section env d p)) = p"
  by (cases d) (auto simp: registerEventListener_def unregisterEventListener_def setPropertyFromController_def
      setPropertyMultiFromController_def resetMetricsFromController_def case_prod_unfold Let_def
      split: option.split if_splits)

text \<open>A call that has done its part and, if it took one, a clean-up has been carried out.\<close>

lemma behind_carried_out: "behind c [] \<Longrightarrow> reply_ok c StatusOk None"
  by (auto simp: behind_def reply_ok_def carried_out_def main_edges_def cleanup_edges_def split: task.splits)

lemma tidying_carried_out: "tidying c es \<Longrightarrow> cleanup_edges es \<Longrightarrow> reply_ok c StatusOk None"
  by (auto simp: tidying_def behind_def reply_ok_def carried_out_def main_edges_def split: task.splits)

lemmas progress_defs = on_course_def phase_claim_def claim_ok_def open_edges_def start_edges_def
  stop_edges_def close_edges_def

lemma set_state_note: "m_state (fst (setStateLocked s p)) = s"
  by (simp_all add: setStateLocked_def)

lemma cleanup_edges_intros:
  "cleanup_edges []" "cleanup_edges stop_edges" "cleanup_edges close_edges" "cleanup_edges (stop_edges @ close_edges)"
  by (simp_all add: cleanup_edges_def)

text \<open>The clean-up part of a call.\<close>

definition in_cleanup :: "task \<Rightarrow> bool" where
  "in_cleanup t \<longleftrightarrow>
     (case t of
        PendingCheck \<Rightarrow> True | DeathBegin _ \<Rightarrow> True | DeathStopNotify _ _ _ \<Rightarrow> True | DeathReady _ \<Rightarrow> True
      | DeathReadyNotify _ _ _ \<Rightarrow> True | DeathRelease _ \<Rightarrow> True | DeathClosing _ \<Rightarrow> True
      | DeathClosingNotify _ _ \<Rightarrow> True | DeathFinish \<Rightarrow> True | DeathClosedNotify _ _ \<Rightarrow> True | _ \<Rightarrow> False)"

lemma cleanup_on_course:
  assumes "claim_ok t p" and "on_course c t" and "in_cleanup t"
  shows "let (t', p', g', es) = micro env t p g in on_course (note_action t (env, p, g) p' c) t'"
proof (cases t)
  case PendingCheck
  then have b: "behind c []" using assms(2) by (simp add: on_course_def)
  show ?thesis
  proof (cases "m_deathCleanupPending p")
    case True
    then have "cleaning (note_action t (env, p, g) p' c)" for p'
      using PendingCheck by (simp add: cleaning_def)
    with True PendingCheck b show ?thesis
      by (simp add: on_course_def takePending_def tidying_def behind_note)
  next
    case False
    with PendingCheck b show ?thesis
      by (simp add: on_course_def takePending_def behind_carried_out behind_note)
  qed
next
  case (DeathBegin e)
  then have b: "tidying c []" using assms(2) by (simp add: on_course_def)
  show ?thesis
  proof (cases "cleanupStopStage e p")
    case (StopReturn p1)
    then have "m_state p1 = m_state p" using stop_stage_result(1) [OF StopReturn] by auto
    with DeathBegin StopReturn show ?thesis
      using tidying_carried_out [OF tidying_stays [OF b]] by (simp add: on_course_def cleanup_edges_intros)
  next
    case (StopBegun p1 old ls)
    with DeathBegin show ?thesis
      using stop_stage_result(3) [OF StopBegun] tidying_edge [OF b, of p STARTED p1 STOPPING]
      by (simp add: on_course_def set_state_note)
  next
    case (StopSkipped p1)
    with DeathBegin b show ?thesis
      using stop_stage_result(2) [OF StopSkipped] by (simp add: on_course_def tidying_stays)
  qed
next
  case (DeathReady e)
  then show ?thesis
    using assms(1,2) tidying_edge [of c "[(STARTED, STOPPING)]" p STOPPING "fst (setStateLocked READY p)" READY]
    by (simp add: on_course_def claim_ok_def phase_claim_def stop_edges_def set_state_note Let_def case_prod_unfold)
next
  case (DeathClosing e)
  then have b: "tidying c [] \<or> tidying c stop_edges" using assms(2) by (simp add: on_course_def)
  show ?thesis
  proof (cases "cleanupCloseStage e p")
    case (CloseReturn p1)
    then have "m_state p1 = m_state p" using close_stage_result(1) [OF CloseReturn] by auto
    then have "reply_ok (note_action t (env, p, g) p1 c) StatusOk None"
      using b tidying_carried_out [OF tidying_stays cleanup_edges_intros(1)]
        tidying_carried_out [OF tidying_stays cleanup_edges_intros(2)] by blast
    with DeathClosing CloseReturn show ?thesis by (simp add: on_course_def)
  next
    case (CloseBegun p1 old ls)
    with DeathClosing b show ?thesis
      using close_stage_result(2) [OF CloseBegun] tidying_edge [of c "[]" p READY p1 CLOSING]
        tidying_edge [of c stop_edges p READY p1 CLOSING]
      by (auto simp: on_course_def set_state_note)
  qed
next
  case DeathFinish
  have m: "m_state (fst (cleanupFinish p)) = CLOSED" by simp
  from DeathFinish show ?thesis
    using assms(1,2) tidying_edge [of c "[(READY, CLOSING)]" p CLOSING _ CLOSED, OF _ _ m]
      tidying_edge [of c "stop_edges @ [(READY, CLOSING)]" p CLOSING _ CLOSED, OF _ _ m]
    by (auto simp: on_course_def claim_ok_def phase_claim_def close_edges_def case_prod_unfold Let_def)
next
  case (DeathClosedNotify old ls)
  then have "tidying c close_edges \<or> tidying c (stop_edges @ close_edges)"
    using assms(2) by (simp add: on_course_def)
  then have "reply_ok (note_action t (env, p, g) p c) StatusOk None"
    using tidying_carried_out [OF tidying_stays cleanup_edges_intros(3)]
      tidying_carried_out [OF tidying_stays cleanup_edges_intros(4)] by blast
  with DeathClosedNotify show ?thesis by (simp add: on_course_def)
qed (use assms in \<open>auto simp: on_course_def in_cleanup_def tidying_stays\<close>)

text \<open>The refusals: what the call saw is why it was refused.\<close>

lemma refusal_on_course:
  "on_course c (CloseBegin x) \<Longrightarrow>
     (let (t', p', g', es) = micro env (CloseBegin x) p g in on_course (note_action (CloseBegin x) (env, p, g) p' c) t')"
  "on_course c StartAcquire \<Longrightarrow>
     (let (t', p', g', es) = micro env StartAcquire p g in on_course (note_action StartAcquire (env, p, g) p' c) t')"
  "on_course c StartEnter \<Longrightarrow>
     (let (t', p', g', es) = micro env StartEnter p g in on_course (note_action StartEnter (env, p, g) p' c) t')"
  "on_course c StopBegin \<Longrightarrow>
     (let (t', p', g', es) = micro env StopBegin p g in on_course (note_action StopBegin (env, p, g) p' c) t')"
  "on_course c (OpenBegin l) \<Longrightarrow>
     (let (t', p', g', es) = micro env (OpenBegin l) p g in on_course (note_action (OpenBegin l) (env, p, g) p' c) t')"
  using turned_down_note [of c _ p g _ env]
  by (auto simp: on_course_def reply_ok_def section_defs setStateLocked_def acquireStartedSlot_def Let_def
      closing_def owned_at_first_def untouched_def split: option.split close_entry.split)

lemma micro_on_course:
  assumes "claim_ok t p" and "on_course c t"
  shows "let (t', p', g', es) = micro env t p g in on_course (note_action t (env, p, g) p' c) t'"
proof (cases "in_cleanup t")
  case True
  then show ?thesis using cleanup_on_course assms by blast
next
  case False
  show ?thesis
  proof (cases t)
    case (DataBegin d)
    then show ?thesis
      using assms(2) data_section_frame(1) [of env d p] refused_data_writes_nothing [of env d p]
      by (cases "data_section env d p") (auto simp: on_course_def untouched_def case_prod_unfold Let_def)
  next
    case (DataNotify st es)
    then show ?thesis using assms(2) by (auto simp: on_course_def reply_ok_def)
  next
    case (Finished st ret)
    then show ?thesis using assms(2) by (simp add: note_finished)
  next
    case (OpenLink l r old ls connected)
    then have "link_failed (note_action t (env, p, g) p c) l" if "linkFails env l r"
      using that OpenLink by (intro link_failed_note) simp_all
    with OpenLink show ?thesis using assms(2) by (auto simp: on_course_def)
  next
    case OpenRollback
    then show ?thesis
      using assms by (auto simp: progress_defs section_defs reply_ok_def kept_by_note Let_def)
  next
    case CloseFinish
    then show ?thesis
      using assms closing_note(2) [of c "[(READY, CLOSING)]" p CLOSING _ CLOSED]
      by (auto simp: progress_defs closeFinish_def setStateLocked_def case_prod_unfold Let_def)
  next
    case (CloseClosedNotify old ls)
    then show ?thesis
      using assms(2) by (auto simp: on_course_def closing_def reply_ok_def kept_by_note)
  qed (use assms False refusal_on_course in \<open>auto simp: in_cleanup_def progress_defs section_defs
      case_prod_unfold Let_def setStateLocked_def behind_def main_edges_def closing_note\<close>)
qed

section \<open>The invariant\<close>

definition answer_inv :: "answered \<Rightarrow> bool" where
  "answer_inv a \<longleftrightarrow>
     sys_inv (an_system a) \<and> length (an_calls a) = length (sys_threads (an_system a)) \<and>
     (\<forall>k < length (an_calls a). on_course (an_calls a ! k) (snd (sys_threads (an_system a) ! k)))"

lemma entry_on_course: "is_entry t \<Longrightarrow> on_course (new_record t) t"
  by (cases t) (simp_all add: is_entry_def on_course_def untouched_def tidying_def cleaning_def behind_def
      main_edges_def new_record_def)

lemma answer_call_inv:
  assumes "answer_inv a" and "i < length (sys_ports (an_system a))" and "is_entry t"
  shows "answer_inv \<lparr>an_system = invoke i t (an_system a),
      an_calls = an_calls a @ [new_record t]\<rparr>"
  using assms inv_invoke [of "an_system a" i t] entry_on_course [OF assms(3)]
  by (auto simp: answer_inv_def invoke_def nth_append less_Suc_eq)

lemma answer_act_inv:
  assumes "answer_inv a" and "k < length (sys_threads (an_system a))"
  shows "answer_inv (answer_act env k a)"
proof -
  let ?s = "an_system a"
  obtain i t where th: "sys_threads ?s ! k = (i, t)" by fastforce
  let ?p = "sys_ports ?s ! i"
  obtain t' p' g' es where m: "micro env t ?p (sys_globals ?s) = (t', p', g', es)"
    by (cases "micro env t ?p (sys_globals ?s)") auto
  let ?note = "note_action t (env, ?p, sys_globals ?s) p'"
  have mem: "(i, t) \<in> set (sys_threads ?s)" using th assms(2) by (metis nth_mem)
  have inv: "sys_inv ?s" and len: "length (an_calls a) = length (sys_threads ?s)"
    and course: "\<forall>j < length (an_calls a). on_course (an_calls a ! j) (snd (sys_threads ?s ! j))"
    using assms(1) by (simp_all add: answer_inv_def)
  have i: "i < length (sys_ports ?s)" and ok: "claim_ok t ?p"
    using sys_invD(2,3) [OF inv mem] by simp_all
  have "on_course (an_calls a ! k) t" using course assms(2) len th by force
  then have "on_course (?note (an_calls a ! k)) t'"
    using micro_on_course [OF ok, of "an_calls a ! k" env "sys_globals ?s"] by (simp add: m)
  then have "on_course ((an_calls a)[k := ?note (an_calls a ! k)] ! j)
      (snd ((sys_threads ?s)[k := (i, t')] ! j))" if "j < length (an_calls a)" for j
    using course that assms(2) len by (cases "j = k") simp_all
  moreover have "answer_act env k a = \<lparr>an_system = act env k ?s,
      an_calls = (an_calls a)[k := ?note (an_calls a ! k)]\<rparr>"
    and "sys_threads (act env k ?s) = (sys_threads ?s)[k := (i, t')]"
    using i by (simp_all add: answer_act_def act_def th m Let_def)
  ultimately show ?thesis
    using inv_act [OF inv assms(2)] len by (simp add: answer_inv_def)
qed

interpretation answering: transition_system
  "\<lambda>a. \<exists>limit cfgs. a = boot_answered limit cfgs" answer_step answer_inv
  by unfold_locales
    (auto simp: answer_call_inv answer_act_inv elim: answer_stepE,
     simp add: answer_inv_def boot_answered_def boot_inv, simp add: boot_system_def)

text \<open>The reply of a call that has returned.\<close>

definition reply :: "task \<Rightarrow> (status \<times> bool option) option" where
  "reply t = (case t of Finished st ret \<Rightarrow> Some (st, ret) | _ \<Rightarrow> None)"

lemma reply_Some: "reply t = Some (st, ret) \<longleftrightarrow> t = Finished st ret"
  by (cases t) (simp_all add: reply_def)

section \<open>Properties\<close>

text \<open>
  C12: a reply says what the call has done. In every interleaving, an \<open>open\<close>, \<open>start\<close> or \<open>stop\<close>
  that answers OK has made the transitions of its operation, and after them those of a clean-up
  only if it took a deferred one itself; a \<open>close\<close> that answers true has closed a port that had
  the given controller, and one that answers false met a READY port with another controller
  and did nothing. A call that is refused has made no transition and written nothing, and the
  port or the count it saw last was a reason to refuse it, but for an open whose \<open>linkToDeath\<close>
  failed, which went to OPENING and back. A data call makes no transition, and writes nothing
  when it is refused. Every run of the system is a run with this record.
\<close>

theorem replies_are_truthful:
  assumes "answer_step\<^sup>*\<^sup>* (boot_answered limit cfgs) a" and "k < length (sys_threads (an_system a))"
    and "reply (snd (sys_threads (an_system a) ! k)) = Some (st, ret)"
  shows "sys_step\<^sup>*\<^sup>* (boot_system limit cfgs) (an_system a) \<and>
    (\<forall>s. sys_step\<^sup>*\<^sup>* (an_system a) s \<longrightarrow> (\<exists>a'. answer_step\<^sup>*\<^sup>* a a' \<and> an_system a' = s)) \<and>
    reply_ok (an_calls a ! k) st ret"
proof -
  have "answer_inv a" using answering.reachable_inv assms(1) by blast
  then have "reply_ok (an_calls a ! k) st ret"
    using assms(2,3) by (force simp: answer_inv_def on_course_def reply_Some)
  then show ?thesis
    using answers.forget_steps [OF assms(1)] answers.extend_steps [of a] by (simp add: boot_answered_def)
qed

text \<open>Two clients race for a port; then a foreign controller and the installed one close it.\<close>

definition rival_opens :: system where
  "rival_opens = scenario [OpenBegin 5, OpenBegin 6, CloseBegin 41, CloseBegin 42]
     (replicate 3 0 @ [1] @ replicate 4 0 @ [2] @ replicate 5 3)"

theorem replies_are_truthful_witness:
  "\<exists>a. answer_step\<^sup>*\<^sup>* (boot_answered 1 demo_ports) a \<and> an_system a = rival_opens \<and>
     reply_ok (an_calls a ! 0) StatusOk None \<and>
     reply_ok (an_calls a ! 1) (StatusEx EX_ILLEGAL_STATE) None \<and>
     reply_ok (an_calls a ! 2) StatusOk (Some False) \<and> reply_ok (an_calls a ! 3) StatusOk (Some True)"
proof -
  have "sys_step\<^sup>*\<^sup>* (boot_system 1 demo_ports) rival_opens"
    unfolding rival_opens_def by (rule scenario_reachable) (simp_all add: is_entry_def)
  then obtain a where a: "answer_step\<^sup>*\<^sup>* (boot_answered 1 demo_ports) a" "an_system a = rival_opens"
    using answers.extend_steps [of "boot_answered 1 demo_ports"] by (auto simp: boot_answered_def)
  have "length (sys_threads rival_opens) = 4 \<and>
      map (reply \<circ> snd) (sys_threads rival_opens) =
        [Some (StatusOk, None), Some (StatusEx EX_ILLEGAL_STATE, None), Some (StatusOk, Some False),
         Some (StatusOk, Some True)]"
    by code_simp
  then have "length (sys_threads rival_opens) = 4"
    "reply (snd (sys_threads rival_opens ! 0)) = Some (StatusOk, None)"
    "reply (snd (sys_threads rival_opens ! 1)) = Some (StatusEx EX_ILLEGAL_STATE, None)"
    "reply (snd (sys_threads rival_opens ! 2)) = Some (StatusOk, Some False)"
    "reply (snd (sys_threads rival_opens ! 3)) = Some (StatusOk, Some True)"
    by (auto simp: map_eq_Cons_conv)
  then show ?thesis
    using replies_are_truthful [OF a(1), of 0] replies_are_truthful [OF a(1), of 1]
      replies_are_truthful [OF a(1), of 2] replies_are_truthful [OF a(1), of 3] a
    by (intro exI [of _ a]) simp
qed

end
