(* ===== verification/Port_Locks.thy ===== *)
theory Port_Locks
  imports Port_Interleaving
begin

text \<open>
  The mutexes under the critical sections. \<open>Port_Interleaving\<close> takes a critical section as one
  action. Here a thread acquires \<open>m_mutex\<close> of its port or \<open>g_startedMutex\<close>, looks at what the mutex
  protects, acquires a second mutex where the code nests them, writes back, and releases
  one after the other, with the other threads running in between. The theory shows that the
  sections are atomic after all, that no thread ever waits in a circle, and that no
  callback is made with a mutex held.
\<close>

section \<open>Which mutex an action takes\<close>

datatype mutex = PortMutex nat | StartedMutex

text \<open>
  A control-plane message and some invalid arguments are turned down before the mutex is taken.
\<close>

definition ut_locks :: "get_map_value \<Rightarrow> kvp \<Rightarrow> bool" where
  "ut_locks getMapValue kvp \<longleftrightarrow>
     (case decodeCommand getMapValue (kvp_string kvp kUtCommandKey) of
        CONNECTION_STATUS \<Rightarrow> ut_kvp_fieldPresent kvp kConnectedKey
      | SIGNAL_STATUS \<Rightarrow>
          ut_kvp_fieldPresent kvp kSignalStatusKey \<and> signalStatus_of (kvp_string kvp kSignalStatusKey) \<noteq> None
      | VIDEO_MODE \<Rightarrow>
          (case (firstPresentKey kvp [Some kPixelWidthKey, Some kWidthKey],
                 firstPresentKey kvp [Some kPixelHeightKey, Some kHeightKey],
                 firstPresentKey kvp [Some kFrameRateInHzKey, Some kFrameRateKey, Some kFpsKey]) of
             (Some widthKey, Some heightKey, Some frameRateKey) \<Rightarrow>
               (let interlaced =
                      (case firstPresentKey kvp [Some kInterlacedKey, Some kIsInterlacedKey] of
                         Some interlacedKey \<Rightarrow> ut_kvp_getBoolField kvp interlacedKey
                       | None \<Rightarrow> False)
                in parsed (makeVideoResolution
                     (cast_int32 (ut_kvp_getUInt32Field kvp widthKey))
                     (cast_int32 (ut_kvp_getUInt32Field kvp heightKey))
                     interlaced
                     (ut_kvp_getFloatField kvp frameRateKey)
                     (Some default_resolution)) \<noteq> None)
           | _ \<Rightarrow> False)
      | CLEAR_VIDEO_MODE \<Rightarrow> True
      | SET_PROPERTY \<Rightarrow>
          ut_kvp_fieldPresent kvp kPropertyKey \<and>
          (ut_kvp_fieldPresent kvp kIntValueKey \<or> ut_kvp_fieldPresent kvp kLongValueKey) \<and>
          portProperty_of (kvp_string kvp kPropertyKey) \<noteq> None
      | _ \<Rightarrow> False)"

primrec data_locks :: "data_call \<Rightarrow> bool" where
  "data_locks (RegisterListener l) \<longleftrightarrow> l \<noteq> None"
| "data_locks (UnregisterListener l) \<longleftrightarrow> l \<noteq> None"
| "data_locks (SetProperty k v) \<longleftrightarrow> isValidPortProperty k"
| "data_locks (SetPropertyMulti kvs) \<longleftrightarrow> kvs \<noteq> []"
| "data_locks ResetMetricsCall \<longleftrightarrow> True"
| "data_locks (UtMessage gm kvp) \<longleftrightarrow> (case kvp of None \<Rightarrow> False | Some kvp \<Rightarrow> ut_locks gm kvp)"

definition first_lock :: "nat \<Rightarrow> task \<Rightarrow> mutex option" where
  "first_lock i t =
     (case t of
        OpenBegin _ \<Rightarrow> Some (PortMutex i)
      | OpenRollback \<Rightarrow> Some (PortMutex i)
      | OpenReady \<Rightarrow> Some (PortMutex i)
      | CloseBegin _ \<Rightarrow> Some (PortMutex i)
      | CloseFinish \<Rightarrow> Some (PortMutex i)
      | StartAcquire \<Rightarrow> Some StartedMutex
      | StartEnter \<Rightarrow> Some (PortMutex i)
      | StartReadSignal \<Rightarrow> Some (PortMutex i)
      | StartStarted \<Rightarrow> Some (PortMutex i)
      | StartBaseline \<Rightarrow> Some (PortMutex i)
      | StopBegin \<Rightarrow> Some (PortMutex i)
      | StopReady \<Rightarrow> Some (PortMutex i)
      | StopRelease \<Rightarrow> Some StartedMutex
      | PendingCheck \<Rightarrow> Some (PortMutex i)
      | DeathBegin _ \<Rightarrow> Some (PortMutex i)
      | DeathReady _ \<Rightarrow> Some (PortMutex i)
      | DeathRelease _ \<Rightarrow> Some StartedMutex
      | DeathClosing _ \<Rightarrow> Some (PortMutex i)
      | DeathFinish \<Rightarrow> Some (PortMutex i)
      | DataBegin d \<Rightarrow> if data_locks d then Some (PortMutex i) else None
      | _ \<Rightarrow> None)"

text \<open>The one nested acquisition: a start that finds the port not READY gives its slot back.\<close>

definition second_lock :: "task \<Rightarrow> port \<Rightarrow> mutex option" where
  "second_lock t p =
     (case t of StartEnter \<Rightarrow> if m_state p \<noteq> READY then Some StartedMutex else None | _ \<Rightarrow> None)"

section \<open>What a section touches\<close>

lemma ut_unlocked: "\<not> ut_locks gm kvp \<Longrightarrow> handleUTControlPlaneMessage gm env (Some kvp) p = (p, [])"
proof (cases "decodeCommand gm (kvp_string kvp kUtCommandKey)")
  case VIDEO_MODE
  assume "\<not> ut_locks gm kvp"
  with VIDEO_MODE show ?thesis
    by (cases "firstPresentKey kvp [Some kPixelWidthKey, Some kWidthKey]";
        cases "firstPresentKey kvp [Some kPixelHeightKey, Some kHeightKey]";
        cases "firstPresentKey kvp [Some kFrameRateInHzKey, Some kFrameRateKey, Some kFpsKey]";
        simp add: handleUTControlPlaneMessage_def ut_locks_def utVideoMode_def Let_def)
next
  case SIGNAL_STATUS
  assume "\<not> ut_locks gm kvp"
  with SIGNAL_STATUS show ?thesis
    by (auto simp: handleUTControlPlaneMessage_def ut_locks_def utSignalStatus_def)
next
  case SET_PROPERTY
  assume "\<not> ut_locks gm kvp"
  with SET_PROPERTY show ?thesis
    by (auto simp: handleUTControlPlaneMessage_def ut_locks_def utSetProperty_def)
qed (simp_all add: handleUTControlPlaneMessage_def ut_locks_def utConnection_def)

lemma data_unlocked:
  "\<not> data_locks d \<Longrightarrow> \<exists>st. \<forall>p. data_section env d p = (st, p, [])"
proof (cases d)
  case (UtMessage gm kvp)
  assume "\<not> data_locks d"
  with UtMessage ut_unlocked show ?thesis
    by (cases kvp) (simp_all add: handleUTControlPlaneMessage_def)
qed (auto simp: registerEventListener_def unregisterEventListener_def setPropertyFromController_def
    setPropertyMultiFromController_def)

text \<open>
  An action without a mutex neither reads nor writes what the mutexes protect; an action under
  one of them only what that one protects; and only actions without a mutex reach libbinder.
\<close>

lemma unprotected:
  "first_lock i t = None \<Longrightarrow>
   micro env t q h = (fst (micro env t p g), q, h, snd (snd (snd (micro env t p g))))"
proof (cases t)
  case (DataBegin d)
  assume "first_lock i t = None"
  with DataBegin have "\<not> data_locks d" by (simp add: first_lock_def split: if_splits)
  from data_unlocked [OF this, of env] DataBegin show ?thesis by auto
qed (simp_all add: first_lock_def)

lemma started_protected:
  "first_lock i t = Some StartedMutex \<Longrightarrow>
   micro env t q g = (fst (micro env t p g), q, fst (snd (snd (micro env t p g))), [])"
  by (cases t) (simp_all add: first_lock_def split: if_splits option.split)

lemma port_protected:
  "first_lock i t = Some (PortMutex i) \<Longrightarrow> second_lock t p = None \<Longrightarrow>
   micro env t p h = (fst (micro env t p g), fst (snd (micro env t p g)), h, [])"
  by (cases t) (simp_all add: first_lock_def second_lock_def startEnter_def case_prod_unfold Let_def
      split: if_splits option.split close_entry.split stop_stage.split close_stage.split)

lemma nested_protected:
  "second_lock t p = Some m \<Longrightarrow> m = StartedMutex \<and> (\<forall>i. first_lock i t = Some (PortMutex i)) \<and>
     snd (snd (snd (micro env t p g))) = []"
  by (cases t) (simp_all add: first_lock_def second_lock_def startEnter_def split: if_splits)

section \<open>Threads with mutexes\<close>

text \<open>
  Where a thread is in its action: outside, inside with the mutexes it holds (the last
  acquired first) and what it has looked at, or past its effect with mutexes still to release.
\<close>

datatype phase = Outside | Inside "mutex list" port globals | Leaving "mutex list"

record locked =
  lk_system :: system
  lk_phases :: "phase list"

fun held :: "phase \<Rightarrow> mutex list" where
  "held Outside = []"
| "held (Inside ms p g) = ms"
| "held (Leaving ms) = ms"

definition free_mutex :: "mutex \<Rightarrow> locked \<Rightarrow> bool" where
  "free_mutex m s \<longleftrightarrow> list_all (\<lambda>ph. m \<notin> set (held ph)) (lk_phases s)"

text \<open>The effect of a section: only what its mutexes protect is written.\<close>

definition write_back :: "nat \<Rightarrow> nat \<Rightarrow> mutex list \<Rightarrow> outcome \<Rightarrow> system \<Rightarrow> system" where
  "write_back k i ms r s =
     (let (t', p', g', es) = r
      in s\<lparr>sys_ports := (if PortMutex i \<in> set ms then (sys_ports s)[i := p'] else sys_ports s),
           sys_globals := (if StartedMutex \<in> set ms then g' else sys_globals s),
           sys_threads := (sys_threads s)[k := (i, t')],
           sys_log := sys_log s @ map (Pair i) es\<rparr>)"

text \<open>One thread \<open>k\<close> moves. A thread that has returned does not move any more.\<close>

inductive lock_action :: "nat \<Rightarrow> locked \<Rightarrow> locked \<Rightarrow> bool" for k :: nat where
  no_mutex: "k < length (lk_phases s) \<Longrightarrow> lk_phases s ! k = Outside \<Longrightarrow>
    sys_threads (lk_system s) ! k = (i, t) \<Longrightarrow> remaining t \<noteq> 0 \<Longrightarrow> first_lock i t = None \<Longrightarrow>
    lock_action k s (s\<lparr>lk_system := act env k (lk_system s)\<rparr>)"
| acquire: "k < length (lk_phases s) \<Longrightarrow> lk_phases s ! k = Outside \<Longrightarrow>
    sys_threads (lk_system s) ! k = (i, t) \<Longrightarrow> first_lock i t = Some m \<Longrightarrow> free_mutex m s \<Longrightarrow>
    lock_action k s (s\<lparr>lk_phases := (lk_phases s)
      [k := Inside [m] (sys_ports (lk_system s) ! i) (sys_globals (lk_system s))]\<rparr>)"
| nest: "k < length (lk_phases s) \<Longrightarrow> lk_phases s ! k = Inside [m] p g \<Longrightarrow>
    sys_threads (lk_system s) ! k = (i, t) \<Longrightarrow> second_lock t p = Some m' \<Longrightarrow> free_mutex m' s \<Longrightarrow>
    lock_action k s (s\<lparr>lk_phases := (lk_phases s)
      [k := Inside [m', m] p (sys_globals (lk_system s))]\<rparr>)"
| finish: "k < length (lk_phases s) \<Longrightarrow> lk_phases s ! k = Inside ms p g \<Longrightarrow>
    sys_threads (lk_system s) ! k = (i, t) \<Longrightarrow> second_lock t p = None \<or> length ms = 2 \<Longrightarrow>
    lock_action k s (s\<lparr>lk_system := write_back k i ms (micro env t p g) (lk_system s),
      lk_phases := (lk_phases s)[k := Leaving ms]\<rparr>)"
| release: "k < length (lk_phases s) \<Longrightarrow> lk_phases s ! k = Leaving (m # ms) \<Longrightarrow>
    lock_action k s (s\<lparr>lk_phases := (lk_phases s)[k := if ms = [] then Outside else Leaving ms]\<rparr>)"

inductive lock_step :: "locked \<Rightarrow> locked \<Rightarrow> bool" where
  new_call: "i < length (sys_ports (lk_system s)) \<Longrightarrow> is_entry t \<Longrightarrow>
    lock_step s (s\<lparr>lk_system := invoke i t (lk_system s), lk_phases := lk_phases s @ [Outside]\<rparr>)"
| thread_moves: "lock_action k s s' \<Longrightarrow> lock_step s s'"

inductive_cases lock_stepE: "lock_step s s'"
inductive_cases lock_actionE: "lock_action k s s'"

definition boot_locked :: "int \<Rightarrow> (int \<times> string \<times> string \<times> port_capabilities) list \<Rightarrow> locked" where
  "boot_locked limit cfgs = \<lparr>lk_system = boot_system limit cfgs, lk_phases = []\<rparr>"

section \<open>The invariant\<close>

text \<open>
  What a thread inside a section has looked at is still so, and no two threads hold the same
  mutex.
\<close>

definition phase_ok :: "system \<Rightarrow> nat \<times> task \<Rightarrow> phase \<Rightarrow> bool" where
  "phase_ok s th ph \<longleftrightarrow>
     (case ph of
        Outside \<Rightarrow> True
      | Leaving ms \<Rightarrow> ms \<noteq> [] \<and> length ms \<le> 2
      | Inside ms p g \<Rightarrow>
          (\<exists>m. first_lock (fst th) (snd th) = Some m \<and>
             (ms = [m] \<or> ms = [StartedMutex, m] \<and> second_lock (snd th) p = Some StartedMutex)) \<and>
          (PortMutex (fst th) \<in> set ms \<longrightarrow> p = sys_ports s ! fst th) \<and>
          (StartedMutex \<in> set ms \<longrightarrow> g = sys_globals s))"

definition lock_inv :: "locked \<Rightarrow> bool" where
  "lock_inv s \<longleftrightarrow>
     length (lk_phases s) = length (sys_threads (lk_system s)) \<and>
     (\<forall>k < length (lk_phases s).
        fst (sys_threads (lk_system s) ! k) < length (sys_ports (lk_system s)) \<and>
        phase_ok (lk_system s) (sys_threads (lk_system s) ! k) (lk_phases s ! k)) \<and>
     (\<forall>j < length (lk_phases s). \<forall>k < length (lk_phases s).
        j \<noteq> k \<longrightarrow> (\<forall>m. m \<in> set (held (lk_phases s ! j)) \<longrightarrow> m \<notin> set (held (lk_phases s ! k))))"

lemma lock_invD:
  assumes "lock_inv s" and "k < length (lk_phases s)"
  shows "fst (sys_threads (lk_system s) ! k) < length (sys_ports (lk_system s))"
    and "phase_ok (lk_system s) (sys_threads (lk_system s) ! k) (lk_phases s ! k)"
    and "k < length (sys_threads (lk_system s))"
    and "j < length (lk_phases s) \<Longrightarrow> j \<noteq> k \<Longrightarrow> m \<in> set (held (lk_phases s ! j)) \<Longrightarrow> m \<notin> set (held (lk_phases s ! k))"
  using assms by (auto simp: lock_inv_def)

lemma first_lock_own: "first_lock i t = Some m \<Longrightarrow> m = StartedMutex \<or> m = PortMutex i"
  by (cases t) (auto simp: first_lock_def split: if_splits)

text \<open>The effect of a section is the atomic action.\<close>

lemma write_back_atomic:
  assumes "phase_ok s (i, t) (Inside ms p g)" and "second_lock t p = None \<or> length ms = 2"
    and "sys_threads s ! k = (i, t)" and "i < length (sys_ports s)"
  shows "write_back k i ms (micro env t p g) s = act env k s"
proof -
  obtain m where m: "first_lock i t = Some m"
    "ms = [m] \<or> ms = [StartedMutex, m] \<and> second_lock t p = Some StartedMutex"
    using assms(1) by (auto simp: phase_ok_def)
  obtain t' p' g' es where r: "micro env t p g = (t', p', g', es)"
    by (cases "micro env t p g") auto
  show ?thesis
  proof (cases "ms = [m]")
    case single: True
    then have none: "second_lock t p = None" using assms(2) by simp
    from first_lock_own [OF m(1)] show ?thesis
    proof
      assume st: "m = StartedMutex"
      then have "g = sys_globals s" using assms(1) single by (simp add: phase_ok_def)
      moreover have "micro env t (sys_ports s ! i) g = (t', sys_ports s ! i, g', [])" "es = []"
        using started_protected [OF m(1) [unfolded st], of env "sys_ports s ! i" g p]
          started_protected [OF m(1) [unfolded st], of env p g p] by (simp_all add: r)
      ultimately show ?thesis
        using assms(3,4) single st r by (simp add: write_back_def act_def)
    next
      assume pm: "m = PortMutex i"
      then have "p = sys_ports s ! i" using assms(1) single by (simp add: phase_ok_def)
      moreover have "micro env t p (sys_globals s) = (t', p', sys_globals s, [])" "es = []"
        using port_protected [OF m(1) [unfolded pm] none, of env "sys_globals s" g]
          port_protected [OF m(1) [unfolded pm] none, of env g g] by (simp_all add: r)
      ultimately show ?thesis
        using assms(3,4) single pm r by (simp add: write_back_def act_def)
    qed
  next
    case False
    then have ms: "ms = [StartedMutex, m]" "second_lock t p = Some StartedMutex" using m(2) by auto
    then have "m = PortMutex i" using nested_protected [OF ms(2)] m(1) by auto
    then have "p = sys_ports s ! i" "g = sys_globals s" using assms(1) ms by (simp_all add: phase_ok_def)
    with \<open>m = PortMutex i\<close> ms(1) assms(3) show ?thesis
      by (simp add: write_back_def act_def case_prod_unfold Let_def)
  qed
qed

text \<open>Moving one thread keeps the invariant when what the others look at stays as it is.\<close>

lemma lock_inv_update:
  assumes inv: "lock_inv s" and k: "k < length (lk_phases s)"
    and threads: "sys_threads s' = (sys_threads (lk_system s))[k := (fst (sys_threads (lk_system s) ! k), t')]"
    and ports: "length (sys_ports s') = length (sys_ports (lk_system s))"
    and own: "phase_ok s' (fst (sys_threads (lk_system s) ! k), t') ph"
    and excl: "\<And>j m. j < length (lk_phases s) \<Longrightarrow> j \<noteq> k \<Longrightarrow> m \<in> set (held ph) \<Longrightarrow> m \<notin> set (held (lk_phases s ! j))"
    and others: "\<And>j. j < length (lk_phases s) \<Longrightarrow> j \<noteq> k \<Longrightarrow>
      phase_ok s' (sys_threads (lk_system s) ! j) (lk_phases s ! j)"
  shows "lock_inv (s\<lparr>lk_system := s', lk_phases := (lk_phases s)[k := ph]\<rparr>)"
proof -
  have len: "length (sys_threads (lk_system s)) = length (lk_phases s)"
    using inv by (simp add: lock_inv_def)
  have "fst ((sys_threads s') ! j) < length (sys_ports s') \<and>
      phase_ok s' (sys_threads s' ! j) ((lk_phases s)[k := ph] ! j)" if "j < length (lk_phases s)" for j
    using that lock_invD(1) [OF inv] own others threads ports len k by (cases "j = k") simp_all
  moreover have "m \<notin> set (held ((lk_phases s)[k := ph] ! l))"
    if "j < length (lk_phases s)" "l < length (lk_phases s)" "j \<noteq> l"
      "m \<in> set (held ((lk_phases s)[k := ph] ! j))" for j l m
    using that lock_invD(4) [OF inv, of l j m] excl by (cases "j = k"; cases "l = k") auto
  ultimately show ?thesis
    using len threads by (simp add: lock_inv_def)
qed

lemma lock_inv_phase:
  assumes inv: "lock_inv s" and k: "k < length (lk_phases s)"
    and own: "phase_ok (lk_system s) (sys_threads (lk_system s) ! k) ph"
    and excl: "\<And>j m. j < length (lk_phases s) \<Longrightarrow> j \<noteq> k \<Longrightarrow> m \<in> set (held ph) \<Longrightarrow> m \<notin> set (held (lk_phases s ! j))"
  shows "lock_inv (s\<lparr>lk_phases := (lk_phases s)[k := ph]\<rparr>)"
proof -
  have "lock_inv (s\<lparr>lk_system := lk_system s, lk_phases := (lk_phases s)[k := ph]\<rparr>)"
    by (rule lock_inv_update [OF inv k, where t' = "snd (sys_threads (lk_system s) ! k)"])
      (use own excl lock_invD(2) [OF inv] in simp_all)
  then show ?thesis by simp
qed

lemma free_mutexD: "free_mutex m s \<Longrightarrow> j < length (lk_phases s) \<Longrightarrow> m \<notin> set (held (lk_phases s ! j))"
  by (simp add: free_mutex_def list_all_length)

text \<open>An action of one thread leaves alone what another one holds the mutex of.\<close>

lemma undisturbed:
  assumes inv: "lock_inv s" and k: "k < length (lk_phases s)" and j: "j < length (lk_phases s)" "j \<noteq> k"
    and th: "sys_threads (lk_system s) ! k = (i, t)"
    and ports: "sys_ports s' = sys_ports (lk_system s) \<or>
      PortMutex i \<in> set (held (lk_phases s ! k)) \<and> sys_ports s' = (sys_ports (lk_system s))[i := p']"
    and globals: "sys_globals s' = sys_globals (lk_system s) \<or> StartedMutex \<in> set (held (lk_phases s ! k))"
  shows "phase_ok s' (sys_threads (lk_system s) ! j) (lk_phases s ! j)"
proof -
  note ok = lock_invD(2) [OF inv j(1)]
  have "sys_ports s' ! fst (sys_threads (lk_system s) ! j) = sys_ports (lk_system s) ! fst (sys_threads (lk_system s) ! j)"
    if "PortMutex (fst (sys_threads (lk_system s) ! j)) \<in> set (held (lk_phases s ! j))"
    using that ports lock_invD(4) [OF inv k j] by (cases "fst (sys_threads (lk_system s) ! j) = i") auto
  moreover have "sys_globals s' = sys_globals (lk_system s)" if "StartedMutex \<in> set (held (lk_phases s ! j))"
    using that globals lock_invD(4) [OF inv k j] by auto
  ultimately show ?thesis
    using ok by (auto simp: phase_ok_def split: phase.splits)
qed

lemma act_unprotected:
  assumes "sys_threads s ! k = (i, t)" and "first_lock i t = None"
  shows "sys_ports (act env k s) = sys_ports s" and "sys_globals (act env k s) = sys_globals s"
    and "\<exists>t'. sys_threads (act env k s) = (sys_threads s)[k := (i, t')]"
  using unprotected [OF assms(2), of env "sys_ports s ! i" "sys_globals s" "sys_ports s ! i" "sys_globals s"] assms(1)
  by (cases "micro env t (sys_ports s ! i) (sys_globals s)"; auto simp: act_def)+

lemma lock_action_inv:
  assumes inv: "lock_inv s" and "lock_action k s s'"
  shows "lock_inv s' \<and> (lk_system s' = lk_system s \<or> (\<exists>env. lk_system s' = act env k (lk_system s)))"
  using assms(2)
proof cases
  case (no_mutex i t env)
  note a = act_unprotected [OF no_mutex(4,6), of env]
  obtain t' where t': "sys_threads (act env k (lk_system s)) = (sys_threads (lk_system s))[k := (i, t')]"
    using a(3) by blast
  have "lock_inv (s\<lparr>lk_system := act env k (lk_system s), lk_phases := (lk_phases s)[k := Outside]\<rparr>)"
    by (rule lock_inv_update [OF inv no_mutex(2), where t' = t'])
      (use t' a no_mutex undisturbed [OF inv no_mutex(2) _ _ no_mutex(4)] in \<open>auto simp: phase_ok_def\<close>)
  moreover have "(lk_phases s)[k := Outside] = lk_phases s" using no_mutex by (metis list_update_id)
  ultimately show ?thesis using no_mutex by auto
next
  case (acquire i t m)
  have "lock_inv (s\<lparr>lk_phases := (lk_phases s)
      [k := Inside [m] (sys_ports (lk_system s) ! i) (sys_globals (lk_system s))]\<rparr>)"
    by (rule lock_inv_phase [OF inv acquire(2)])
      (use acquire first_lock_own [OF acquire(5)] free_mutexD [OF acquire(6)] in \<open>auto simp: phase_ok_def\<close>)
  then show ?thesis using acquire by simp
next
  case (nest m p g i t m')
  note ok = lock_invD(2) [OF inv nest(2), unfolded nest(3,4) phase_ok_def, simplified]
  have m': "m' = StartedMutex" using nested_protected [OF nest(5)] by simp
  have "lock_inv (s\<lparr>lk_phases := (lk_phases s)[k := Inside [m', m] p (sys_globals (lk_system s))]\<rparr>)"
  proof (rule lock_inv_phase [OF inv nest(2)])
    show "phase_ok (lk_system s) (sys_threads (lk_system s) ! k) (Inside [m', m] p (sys_globals (lk_system s)))"
      using ok nest(4,5) m' by (auto simp: phase_ok_def)
    fix j m2
    assume "j < length (lk_phases s)" "j \<noteq> k" "m2 \<in> set (held (Inside [m', m] p (sys_globals (lk_system s))))"
    then show "m2 \<notin> set (held (lk_phases s ! j))"
      using free_mutexD [OF nest(6)] lock_invD(4) [OF inv _ nest(2), of j m] nest(3) by auto
  qed
  then show ?thesis using nest by simp
next
  case (finish ms p g i t env)
  have i: "i < length (sys_ports (lk_system s))" using lock_invD(1) [OF inv finish(2)] finish(4) by simp
  note ok = lock_invD(2) [OF inv finish(2), unfolded finish(3,4)]
  obtain t' p' g' es where r: "micro env t p g = (t', p', g', es)" by (cases "micro env t p g") auto
  let ?s' = "write_back k i ms (micro env t p g) (lk_system s)"
  have excl: "m \<notin> set (held (lk_phases s ! j))" if "j < length (lk_phases s)" "j \<noteq> k" "m \<in> set ms" for j m
    using lock_invD(4) [OF inv that(1) finish(2), of m] that finish(3) by auto
  have "lock_inv (s\<lparr>lk_system := ?s', lk_phases := (lk_phases s)[k := Leaving ms]\<rparr>)"
  proof (rule lock_inv_update [OF inv finish(2), where t' = t'])
    show "phase_ok ?s' (fst (sys_threads (lk_system s) ! k), t') (Leaving ms)"
      using ok by (auto simp: phase_ok_def)
    fix j assume j: "j < length (lk_phases s)" "j \<noteq> k"
    show "phase_ok ?s' (sys_threads (lk_system s) ! j) (lk_phases s ! j)"
      by (rule undisturbed [OF inv finish(2) j finish(4), where p' = p'])
        (use finish(3) in \<open>auto simp: write_back_def r\<close>)
  qed (use finish(4) excl in \<open>auto simp: write_back_def r\<close>)
  moreover have "?s' = act env k (lk_system s)"
    by (rule write_back_atomic [OF ok finish(5,4) i])
  ultimately show ?thesis using finish by auto
next
  case (release m ms)
  have "lock_inv (s\<lparr>lk_phases := (lk_phases s)[k := if ms = [] then Outside else Leaving ms]\<rparr>)"
  proof (rule lock_inv_phase [OF inv release(2)])
    have "length (m # ms) \<le> 2"
      using lock_invD(2) [OF inv release(2)] by (simp add: release(3) phase_ok_def)
    then show "phase_ok (lk_system s) (sys_threads (lk_system s) ! k) (if ms = [] then Outside else Leaving ms)"
      by (simp add: phase_ok_def)
    fix j m2
    assume "j < length (lk_phases s)" "j \<noteq> k" "m2 \<in> set (held (if ms = [] then Outside else Leaving ms))"
    then show "m2 \<notin> set (held (lk_phases s ! j))"
      using lock_invD(4) [OF inv _ release(2), of j m2] release(3) by (auto split: if_splits)
  qed
  then show ?thesis using release by simp
qed

lemma lock_call_inv:
  assumes "lock_inv s" and "i < length (sys_ports (lk_system s))"
  shows "lock_inv (s\<lparr>lk_system := invoke i t (lk_system s), lk_phases := lk_phases s @ [Outside]\<rparr>)"
proof -
  let ?n = "length (lk_phases s)"
  have len: "length (sys_threads (lk_system s)) = ?n" using assms(1) by (simp add: lock_inv_def)
  have old: "fst (sys_threads (lk_system s) ! k) < length (sys_ports (lk_system s)) \<and>
      phase_ok (invoke i t (lk_system s)) (sys_threads (lk_system s) ! k) (lk_phases s ! k)" if "k < ?n" for k
    using lock_invD(1,2) [OF assms(1) that] by (auto simp: invoke_def phase_ok_def split: phase.splits)
  have "m \<notin> set (held ((lk_phases s @ [Outside]) ! k))"
    if "j < Suc ?n" "k < Suc ?n" "j \<noteq> k" "m \<in> set (held ((lk_phases s @ [Outside]) ! j))" for j k m
    using that lock_invD(4) [OF assms(1), of k j m] by (auto simp: nth_append split: if_splits)
  moreover have "fst ((sys_threads (lk_system s) @ [(i, t)]) ! k) < length (sys_ports (lk_system s)) \<and>
      phase_ok (invoke i t (lk_system s)) ((sys_threads (lk_system s) @ [(i, t)]) ! k) ((lk_phases s @ [Outside]) ! k)"
    if "k < Suc ?n" for k
    using old that assms(2) len by (cases "k < ?n") (auto simp: nth_append phase_ok_def less_Suc_eq)
  ultimately show ?thesis
    using len by (simp add: lock_inv_def) (simp add: invoke_def)
qed

section \<open>Sections are atomic\<close>

lemma lock_action_system:
  assumes "lock_inv s" and "lock_action k s s'"
  shows "sys_step\<^sup>=\<^sup>= (lk_system s) (lk_system s')"
proof -
  have "k < length (sys_threads (lk_system s))"
    using assms by (auto simp: lock_inv_def elim: lock_actionE)
  then show ?thesis
    using lock_action_inv [OF assms] by (auto intro: sys_step.action)
qed

lemma lock_step_ok:
  assumes "lock_inv s" and "lock_step s s'"
  shows "lock_inv s'" and "sys_step\<^sup>=\<^sup>= (lk_system s) (lk_system s')"
  using assms(2)
proof (atomize (full), cases)
  case (new_call i t)
  then show "lock_inv s' \<and> sys_step\<^sup>=\<^sup>= (lk_system s) (lk_system s')"
    using lock_call_inv [OF assms(1) new_call(2), of t] by (auto intro: sys_step.call)
next
  case (thread_moves k)
  then show "lock_inv s' \<and> sys_step\<^sup>=\<^sup>= (lk_system s) (lk_system s')"
    using lock_action_inv [OF assms(1)] lock_action_system [OF assms(1)] by blast
qed

lemma boot_locked_inv: "lock_inv (boot_locked limit cfgs)"
  by (simp add: boot_locked_def lock_inv_def boot_system_def)

interpretation mutexes: transition_system
  "\<lambda>s. \<exists>limit cfgs. s = boot_locked limit cfgs" lock_step lock_inv
  by unfold_locales (auto simp: boot_locked_inv lock_step_ok)

lemma lock_steps_system:
  "lock_step\<^sup>*\<^sup>* s s' \<Longrightarrow> lock_inv s \<Longrightarrow> sys_step\<^sup>*\<^sup>* (lk_system s) (lk_system s') \<and> lock_inv s'"
proof (induction rule: rtranclp_induct)
  case (step s' s'')
  then show ?case
    using lock_step_ok [of s' s''] by (auto intro: rtranclp.rtrancl_into_rtrancl)
qed simp

section \<open>No circular waiting\<close>

text \<open>
  The only mutex that is acquired with another one held is \<open>g_startedMutex\<close>, whose holder
  never waits; so some thread can always move on.
\<close>

definition unfinished :: "locked \<Rightarrow> nat \<Rightarrow> bool" where
  "unfinished s k \<longleftrightarrow>
     k < length (lk_phases s) \<and>
     (lk_phases s ! k \<noteq> Outside \<or> remaining (snd (sys_threads (lk_system s) ! k)) \<noteq> 0)"

lemma inside_moves:
  assumes inv: "lock_inv s" and k: "k < length (lk_phases s)" and ph: "lk_phases s ! k = Inside ms p g"
    and free: "free_mutex StartedMutex s \<or> StartedMutex \<in> set ms"
  shows "\<exists>s'. lock_action k s s'"
proof -
  obtain i t where th: "sys_threads (lk_system s) ! k = (i, t)" by fastforce
  obtain m where m: "first_lock i t = Some m"
    "ms = [m] \<or> ms = [StartedMutex, m] \<and> second_lock t p = Some StartedMutex"
    using lock_invD(2) [OF inv k] th by (auto simp: ph phase_ok_def)
  show ?thesis
  proof (cases "second_lock t p = None \<or> length ms = 2")
    case True
    then show ?thesis using lock_action.finish [OF k ph th] by blast
  next
    case False
    then obtain m' where m': "second_lock t p = Some m'" "ms = [m]" using m(2) by auto
    then have "m' = StartedMutex" "m = PortMutex i" using nested_protected [OF m'(1)] m(1) by auto
    then have "free_mutex m' s" using free m'(2) by auto
    then show ?thesis using lock_action.nest [OF k _ th m'(1)] ph m'(2) by blast
  qed
qed

lemma someone_moves:
  assumes inv: "lock_inv s" and "unfinished s k"
  shows "\<exists>j s'. lock_action j s s'"
proof -
  have k: "k < length (lk_phases s)" using assms(2) by (simp add: unfinished_def)
  consider (leaving) j m ms where "j < length (lk_phases s)" "lk_phases s ! j = Leaving (m # ms)"
    | (inside) j ms p g where "j < length (lk_phases s)" "lk_phases s ! j = Inside ms p g"
        "\<forall>l < length (lk_phases s). \<forall>ms. lk_phases s ! l \<noteq> Leaving ms"
    | (outside) "\<forall>j < length (lk_phases s). lk_phases s ! j = Outside"
  proof -
    have "ms \<noteq> []" if "l < length (lk_phases s)" "lk_phases s ! l = Leaving ms" for l ms
      using lock_invD(2) [OF inv that(1)] that(2) by (simp add: phase_ok_def)
    then show thesis
      using that by (metis held.cases neq_Nil_conv)
  qed
  then show ?thesis
  proof cases
    case leaving
    then show ?thesis using lock_action.release by blast
  next
    case inside
    show ?thesis
    proof (cases "free_mutex StartedMutex s")
      case True
      then show ?thesis using inside_moves [OF inv inside(1,2)] by blast
    next
      case False
      then obtain l where l: "l < length (lk_phases s)" "StartedMutex \<in> set (held (lk_phases s ! l))"
        by (auto simp: free_mutex_def list_all_length)
      then obtain ms' p' g' where "lk_phases s ! l = Inside ms' p' g'"
        using inside(3) by (cases "lk_phases s ! l") auto
      with l show ?thesis using inside_moves [OF inv l(1)] by fastforce
    qed
  next
    case outside
    obtain i t where th: "sys_threads (lk_system s) ! k = (i, t)" by fastforce
    have free: "free_mutex m s" for m using outside by (simp add: free_mutex_def list_all_length)
    have "remaining t \<noteq> 0" using assms(2) outside th by (simp add: unfinished_def)
    then show ?thesis
      using lock_action.no_mutex [OF k _ th] lock_action.acquire [OF k _ th _ free] outside k
      by (cases "first_lock i t") blast+
  qed
qed

text \<open>
  Every move uses up work: an action has at most five moves (two acquisitions, the effect, two
  releases), and a call at most \<open>remaining\<close> actions.
\<close>

fun thread_work :: "(nat \<times> task) \<times> phase \<Rightarrow> nat" where
  "thread_work ((i, t), ph) =
     5 * remaining t +
     (case ph of Outside \<Rightarrow> 4 | Inside ms p g \<Rightarrow> if length ms = 2 then 2 else 3 | Leaving ms \<Rightarrow> 4 + length ms)"

definition lock_work :: "locked \<Rightarrow> nat" where
  "lock_work s = sum_list (map thread_work (zip (sys_threads (lk_system s)) (lk_phases s)))"

lemma lock_work_update:
  assumes "k < length (lk_phases s)" and "length (sys_threads (lk_system s)) = length (lk_phases s)"
    and "sys_threads (lk_system s') = (sys_threads (lk_system s))[k := th]" and "lk_phases s' = (lk_phases s)[k := ph]"
    and "thread_work (th, ph) < thread_work (sys_threads (lk_system s) ! k, lk_phases s ! k)"
  shows "lock_work s' < lock_work s"
proof -
  let ?z = "zip (sys_threads (lk_system s)) (lk_phases s)"
  have z: "zip (sys_threads (lk_system s')) (lk_phases s') = ?z[k := (th, ph)]"
    using assms(3,4) by (simp add: zip_update)
  have k: "k < length ?z" "?z ! k = (sys_threads (lk_system s) ! k, lk_phases s ! k)"
    using assms(1,2) by simp_all
  then have "thread_work (?z ! k) \<le> sum_list (map thread_work ?z)"
    using elem_le_sum_list [of k "map thread_work ?z"] by simp
  then show ?thesis
    using assms(5) k by (simp add: lock_work_def z map_update sum_list_update)
qed

lemma micro_works: "first_lock i t \<noteq> None \<or> remaining t \<noteq> 0 \<Longrightarrow> remaining (fst (micro env t p g)) < remaining t"
  by (rule micro_remaining) (auto simp: first_lock_def)

lemma lock_action_works:
  assumes inv: "lock_inv s" and "lock_action k s s'"
  shows "lock_work s' < lock_work s"
proof -
  have len: "length (sys_threads (lk_system s)) = length (lk_phases s)" using inv by (simp add: lock_inv_def)
  show ?thesis
    using assms(2)
  proof cases
    case (no_mutex i t env)
    let ?r = "micro env t (sys_ports (lk_system s) ! i) (sys_globals (lk_system s))"
    show ?thesis
      by (rule lock_work_update [OF no_mutex(2) len, where th = "(i, fst ?r)" and ph = Outside])
        (use no_mutex micro_works [of i t env "sys_ports (lk_system s) ! i" "sys_globals (lk_system s)"]
          list_update_id [of "lk_phases s" k] in \<open>simp_all add: act_def case_prod_unfold Let_def\<close>)
  next
    case (acquire i t m)
    show ?thesis
      by (rule lock_work_update [OF acquire(2) len, where th = "(i, t)"
          and ph = "Inside [m] (sys_ports (lk_system s) ! i) (sys_globals (lk_system s))"])
        (use acquire list_update_id [of "sys_threads (lk_system s)" k] in simp_all)
  next
    case (nest m p g i t m')
    show ?thesis
      by (rule lock_work_update [OF nest(2) len, where th = "(i, t)"
          and ph = "Inside [m', m] p (sys_globals (lk_system s))"])
        (use nest list_update_id [of "sys_threads (lk_system s)" k] in simp_all)
  next
    case (finish ms p g i t env)
    have ok: "first_lock i t \<noteq> None" "length ms \<le> 2"
      using lock_invD(2) [OF inv finish(2)] finish(3,4) by (auto simp: phase_ok_def)
    show ?thesis
      by (rule lock_work_update [OF finish(2) len, where th = "(i, fst (micro env t p g))" and ph = "Leaving ms"])
        (use finish ok micro_works [of i t env p g] in \<open>auto simp: write_back_def case_prod_unfold Let_def\<close>)
  next
    case (release m ms)
    obtain i t where th: "sys_threads (lk_system s) ! k = (i, t)" by fastforce
    show ?thesis
      by (rule lock_work_update [OF release(2) len, where th = "(i, t)"])
        (use release th list_update_id [of "sys_threads (lk_system s)" k] in auto)
  qed
qed

lemma lock_run_bounded:
  "((\<lambda>x y. \<exists>k. lock_action k x y) ^^ n) s s' \<Longrightarrow> lock_inv s \<Longrightarrow> n + lock_work s' \<le> lock_work s"
proof (induction n arbitrary: s')
  case (Suc n)
  then obtain s1 k where s1: "((\<lambda>x y. \<exists>k. lock_action k x y) ^^ n) s s1" "lock_action k s1 s'" by auto
  then have "n + lock_work s1 \<le> lock_work s" using Suc by blast
  moreover have "lock_inv s1"
    using s1(1) Suc.prems(2)
  proof (induction n arbitrary: s1)
    case (Suc n)
    then show ?case using lock_action_inv by fastforce
  qed simp
  then have "lock_work s' < lock_work s1" using lock_action_works s1(2) by blast
  ultimately show ?case by simp
qed simp

section \<open>Properties\<close>

text \<open>
  C8: the mutexes make the critical sections atomic. Whatever the order in which threads acquire
  mutexes, look, nest, write back and release, the ports, the started count, the threads and
  the events are those of a run of \<open>Port_Interleaving\<close> with whole sections as single actions;
  no mutex has two holders; and a thread inside a section works on what is still the state.
\<close>

theorem critical_sections_are_atomic:
  assumes "lock_step\<^sup>*\<^sup>* (boot_locked limit cfgs) s"
  shows "sys_step\<^sup>*\<^sup>* (boot_system limit cfgs) (lk_system s) \<and>
    (\<forall>j k m. j < length (lk_phases s) \<and> k < length (lk_phases s) \<and> j \<noteq> k \<and>
       m \<in> set (held (lk_phases s ! j)) \<longrightarrow> m \<notin> set (held (lk_phases s ! k))) \<and>
    (\<forall>k p g ms. k < length (lk_phases s) \<and> lk_phases s ! k = Inside ms p g \<longrightarrow>
       (let i = fst (sys_threads (lk_system s) ! k) in
        (PortMutex i \<in> set ms \<longrightarrow> p = sys_ports (lk_system s) ! i) \<and>
        (StartedMutex \<in> set ms \<longrightarrow> g = sys_globals (lk_system s))))"
proof -
  have r: "sys_step\<^sup>*\<^sup>* (boot_system limit cfgs) (lk_system s)" "lock_inv s"
    using lock_steps_system [OF assms boot_locked_inv] by (simp_all add: boot_locked_def)
  have "(PortMutex (fst (sys_threads (lk_system s) ! k)) \<in> set ms \<longrightarrow>
        p = sys_ports (lk_system s) ! fst (sys_threads (lk_system s) ! k)) \<and>
      (StartedMutex \<in> set ms \<longrightarrow> g = sys_globals (lk_system s))"
    if "k < length (lk_phases s)" "lk_phases s ! k = Inside ms p g" for k ms p g
    using lock_invD(2) [OF r(2) that(1)] that(2) by (simp add: phase_ok_def)
  with r lock_invD(4) [OF r(2)] show ?thesis unfolding Let_def by blast
qed

text \<open>Two starts race for the one slot: the first is inside the section of the count.\<close>

definition lock_demo_system :: system where
  "lock_demo_system = invoke 0 StartAcquire (invoke 0 StartAcquire (boot_system 1 demo_ports))"

definition lock_demo :: locked where
  "lock_demo =
     \<lparr>lk_system = lock_demo_system,
      lk_phases = [Inside [StartedMutex] (sys_ports lock_demo_system ! 0) (sys_globals lock_demo_system), Outside]\<rparr>"

lemma lock_demo_reachable: "lock_step\<^sup>*\<^sup>* (boot_locked 1 demo_ports) lock_demo"
proof -
  let ?b = "boot_locked 1 demo_ports"
  let ?c = "\<lambda>s. s\<lparr>lk_system := invoke 0 StartAcquire (lk_system s), lk_phases := lk_phases s @ [Outside]\<rparr>"
  have "lock_step ?b (?c ?b)"
    by (rule new_call) (simp_all add: boot_locked_def boot_system_def demo_ports_def is_entry_def)
  moreover have "lock_step (?c ?b) (?c (?c ?b))"
    by (rule new_call) (simp_all add: boot_locked_def boot_system_def demo_ports_def is_entry_def invoke_def)
  moreover have "lock_action 0 (?c (?c ?b)) lock_demo"
  proof -
    have th: "sys_threads (lk_system (?c (?c ?b))) ! 0 = (0, StartAcquire)"
      and ph: "0 < length (lk_phases (?c (?c ?b)))" "lk_phases (?c (?c ?b)) ! 0 = Outside"
      and free: "free_mutex StartedMutex (?c (?c ?b))"
      by (simp_all add: boot_locked_def boot_system_def invoke_def free_mutex_def)
    have "lock_demo = (?c (?c ?b))\<lparr>lk_phases := (lk_phases (?c (?c ?b)))
        [0 := Inside [StartedMutex] (sys_ports (lk_system (?c (?c ?b))) ! 0) (sys_globals (lk_system (?c (?c ?b))))]\<rparr>"
      by (simp add: lock_demo_def lock_demo_system_def boot_locked_def)
    with lock_action.acquire [OF ph th _ free] show ?thesis by (simp add: first_lock_def)
  qed
  ultimately show ?thesis
    by (meson thread_moves rtranclp.rtrancl_into_rtrancl rtranclp.rtrancl_refl)
qed

theorem critical_sections_are_atomic_witness:
  "sys_step\<^sup>*\<^sup>* (boot_system 1 demo_ports) (lk_system lock_demo) \<and>
   held (lk_phases lock_demo ! 0) = [StartedMutex] \<and> StartedMutex \<notin> set (held (lk_phases lock_demo ! 1))"
  using critical_sections_are_atomic [OF lock_demo_reachable] by (simp add: lock_demo_def)

text \<open>
  C9: no thread is blocked for ever. As long as some call has not returned, some thread can
  move, although threads wait for mutexes; without new calls only boundedly many moves are
  possible, so all calls return with all mutexes free; and a thread that holds a mutex issues no
  callback, so an observer or client that calls back in cannot wait for its own caller.
\<close>

theorem mutexes_never_deadlock:
  assumes "lock_step\<^sup>*\<^sup>* (boot_locked limit cfgs) s"
  shows "(\<forall>k. unfinished s k \<longrightarrow> (\<exists>j s'. lock_action j s s')) \<and>
    (\<forall>n s'. ((\<lambda>x y. \<exists>k. lock_action k x y) ^^ n) s s' \<longrightarrow> n \<le> lock_work s) \<and>
    (\<forall>k s'. lock_action k s s' \<and> held (lk_phases s ! k) \<noteq> [] \<longrightarrow>
       sys_log (lk_system s') = sys_log (lk_system s))"
proof -
  have inv: "lock_inv s" using mutexes.reachable_inv [OF _ assms] by blast
  have "sys_log (lk_system s') = sys_log (lk_system s)"
    if "lock_action k s s'" "held (lk_phases s ! k) \<noteq> []" for k s'
    using that(1)
  proof cases
    case (finish ms p g i t env)
    obtain m where m: "first_lock i t = Some m"
      "ms = [m] \<or> ms = [StartedMutex, m] \<and> second_lock t p = Some StartedMutex"
      using lock_invD(2) [OF inv finish(2)] finish(3,4) by (auto simp: phase_ok_def)
    have "snd (snd (snd (micro env t p g))) = []"
    proof (cases "second_lock t p")
      case None
      with first_lock_own [OF m(1)] m(1) started_protected [of i t env p g p] port_protected [of i t p env g g]
      show ?thesis by (metis snd_conv)
    qed (use nested_protected in blast)
    then show ?thesis using finish by (simp add: write_back_def case_prod_unfold Let_def)
  qed (use that(2) in auto)
  with someone_moves [OF inv] lock_run_bounded [OF _ inv] show ?thesis
    by (metis add_leD1)
qed

theorem mutexes_never_deadlock_witness:
  "unfinished lock_demo 1 \<and> (\<exists>j s'. lock_action j lock_demo s') \<and> lock_work lock_demo = 207"
proof -
  have u: "unfinished lock_demo 1"
    by (simp add: unfinished_def lock_demo_def lock_demo_system_def invoke_def boot_system_def)
  have "lock_work lock_demo = 207"
    by (simp add: lock_work_def lock_demo_def lock_demo_system_def invoke_def boot_system_def)
  with u mutexes_never_deadlock [OF lock_demo_reachable] show ?thesis by blast
qed

end
