(* ===== verification/Port_Controller.thy ===== *)
theory Port_Controller
  imports Session_Spec
begin

text \<open>
  \<open>CompositeInputController\<close> (\<open>vcomponent_CompositeInputController.cpp\<close>): the object that
  \<open>open\<close> hands to the client. It holds a raw pointer to its port, null or the place of a port
  in the service's list, and forwards every call to the port. The port does not compare the
  calling controller with the installed one.
\<close>

record composite_input_controller =
  cc_port :: "nat sp"

text \<open>What every method does: refuse a null port, otherwise act on the port pointed to.\<close>

definition CompositeInputController :: "nat sp \<Rightarrow> composite_input_controller" where
  "CompositeInputController p = \<lparr>cc_port = p\<rparr>"

definition controller_start ::
  "binder_env \<Rightarrow> composite_input_controller \<Rightarrow> port list \<Rightarrow> globals \<Rightarrow>
   status \<times> port list \<times> globals \<times> effect list" where
  "controller_start env c ports g =
     (case cc_port c of
        None \<Rightarrow> (StatusEx EX_ILLEGAL_STATE, ports, g, [])
      | Some i \<Rightarrow>
          (let (st, p, g', es) = startFromController env (ports ! i) g
           in (st, ports[i := p], g', es)))"

definition controller_stop ::
  "binder_env \<Rightarrow> composite_input_controller \<Rightarrow> port list \<Rightarrow> globals \<Rightarrow>
   status \<times> port list \<times> globals \<times> effect list" where
  "controller_stop env c ports g =
     (case cc_port c of
        None \<Rightarrow> (StatusEx EX_ILLEGAL_STATE, ports, g, [])
      | Some i \<Rightarrow>
          (let (st, p, g', es) = stopFromController env (ports ! i) g
           in (st, ports[i := p], g', es)))"

definition controller_setProperty ::
  "binder_env \<Rightarrow> composite_input_controller \<Rightarrow> port_property \<Rightarrow> property_value \<Rightarrow> port list \<Rightarrow>
   status \<times> port list \<times> effect list" where
  "controller_setProperty env c k v ports =
     (case cc_port c of
        None \<Rightarrow> (StatusEx EX_ILLEGAL_STATE, ports, [])
      | Some i \<Rightarrow>
          (let (st, p, es) = setPropertyFromController env k v (ports ! i)
           in (st, ports[i := p], es)))"

definition controller_setPropertyMulti ::
  "binder_env \<Rightarrow> composite_input_controller \<Rightarrow> property_kv_pair list \<Rightarrow> port list \<Rightarrow>
   status \<times> port list \<times> effect list" where
  "controller_setPropertyMulti env c kvs ports =
     (case cc_port c of
        None \<Rightarrow> (StatusEx EX_ILLEGAL_STATE, ports, [])
      | Some i \<Rightarrow>
          (let (st, p, es) = setPropertyMultiFromController env kvs (ports ! i)
           in (st, ports[i := p], es)))"

definition controller_resetMetrics ::
  "binder_env \<Rightarrow> composite_input_controller \<Rightarrow> port list \<Rightarrow> status \<times> port list \<times> effect list" where
  "controller_resetMetrics env c ports =
     (case cc_port c of
        None \<Rightarrow> (StatusEx EX_ILLEGAL_STATE, ports, [])
      | Some i \<Rightarrow>
          (let (st, p, es) = resetMetricsFromController env (ports ! i)
           in (st, ports[i := p], es)))"

text \<open>
  The controllers that exist, by identity. An \<open>open\<close> that finds the port CLOSED makes a new one,
  for the place \<open>i\<close> of the port; a client keeps the ones it was given as long as it likes.
\<close>

type_synonym objects = "controller \<rightharpoonup> composite_input_controller"

definition open_with_object ::
  "binder_env \<Rightarrow> iface \<Rightarrow> nat \<Rightarrow> port list \<Rightarrow> globals \<Rightarrow> objects \<Rightarrow>
   status \<times> controller sp out \<times> port list \<times> globals \<times> objects" where
  "open_with_object env l i ports g objs =
     (let (st, ret, p, g', es) = open_port env (Some l) (Some None) (ports ! i) g;
          objs' = (case openEnter env l (observesDeath env l) (ports ! i) of
                     None \<Rightarrow> objs
                   | Some _ \<Rightarrow> objs(newController env \<mapsto> CompositeInputController (Some i)))
      in (st, ret, ports[i := p], g', objs'))"

lemmas controller_defs =
  controller_start_def controller_stop_def controller_setProperty_def
  controller_setPropertyMulti_def controller_resetMetrics_def

section \<open>The contract of a method\<close>

text \<open>
  The five methods share one contract: with a null port they refuse and change nothing;
  otherwise they touch no port but their own, and what they do depends on their port alone.
\<close>

locale port_method =
  fixes meth :: "nat sp \<Rightarrow> port list \<times> 'g \<Rightarrow> status \<times> (port list \<times> 'g) \<times> effect list"
  assumes null_port: "meth None s = (StatusEx EX_ILLEGAL_STATE, s, [])"
    and own_port: "j \<noteq> i \<Longrightarrow> fst (fst (snd (meth (Some i) (ps, g)))) ! j = ps ! j"
    and keeps_length: "length (fst (fst (snd (meth (Some i) (ps, g))))) = length ps"
begin

lemma other_ports: "c \<noteq> Some j \<Longrightarrow> fst (fst (snd (meth c (ps, g)))) ! j = ps ! j"
  by (cases c) (auto simp: null_port own_port)

lemma ports_preserved: "length (fst (fst (snd (meth c (ps, g))))) = length ps"
  by (cases c) (auto simp: null_port keeps_length)

end

interpretation ctl_start: port_method
  "\<lambda>c (ps, g). let (st, ps', g', es) = controller_start env \<lparr>cc_port = c\<rparr> ps g in (st, (ps', g'), es)"
  for env
  by unfold_locales (auto simp: controller_start_def case_prod_unfold Let_def)

interpretation ctl_stop: port_method
  "\<lambda>c (ps, g). let (st, ps', g', es) = controller_stop env \<lparr>cc_port = c\<rparr> ps g in (st, (ps', g'), es)"
  for env
  by unfold_locales (auto simp: controller_stop_def case_prod_unfold Let_def)

interpretation ctl_set: port_method
  "\<lambda>c (ps, g). let (st, ps', es) = controller_setProperty env \<lparr>cc_port = c\<rparr> k v ps in (st, (ps', g), es)"
  for env k v
  by unfold_locales (auto simp: controller_setProperty_def case_prod_unfold Let_def)

interpretation ctl_multi: port_method
  "\<lambda>c (ps, g). let (st, ps', es) = controller_setPropertyMulti env \<lparr>cc_port = c\<rparr> kvs ps in (st, (ps', g), es)"
  for env kvs
  by unfold_locales (auto simp: controller_setPropertyMulti_def case_prod_unfold Let_def)

interpretation ctl_reset: port_method
  "\<lambda>c (ps, g). let (st, ps', es) = controller_resetMetrics env \<lparr>cc_port = c\<rparr> ps in (st, (ps', g), es)"
  for env
  by unfold_locales (auto simp: controller_resetMetrics_def case_prod_unfold Let_def)

section \<open>Properties\<close>

text \<open>
  A controller without a port refuses every call with EX_ILLEGAL_STATE and changes
  nothing, and a controller never touches a port other than its own.
\<close>

lemma controller_isolation:
  "(cc_port c = None \<longrightarrow>
      controller_start env c ports g = (StatusEx EX_ILLEGAL_STATE, ports, g, []) \<and>
      controller_stop env c ports g = (StatusEx EX_ILLEGAL_STATE, ports, g, []) \<and>
      controller_setProperty env c k v ports = (StatusEx EX_ILLEGAL_STATE, ports, []) \<and>
      controller_setPropertyMulti env c kvs ports = (StatusEx EX_ILLEGAL_STATE, ports, []) \<and>
      controller_resetMetrics env c ports = (StatusEx EX_ILLEGAL_STATE, ports, [])) \<and>
   (cc_port c \<noteq> Some j \<longrightarrow>
      fst (snd (controller_start env c ports g)) ! j = ports ! j \<and>
      fst (snd (controller_stop env c ports g)) ! j = ports ! j \<and>
      fst (snd (controller_setProperty env c k v ports)) ! j = ports ! j \<and>
      fst (snd (controller_setPropertyMulti env c kvs ports)) ! j = ports ! j \<and>
      fst (snd (controller_resetMetrics env c ports)) ! j = ports ! j)"
proof -
  have c: "c = \<lparr>cc_port = cc_port c\<rparr>" by simp
  show ?thesis
    using ctl_start.other_ports [of "cc_port c" j env ports g] ctl_stop.other_ports [of "cc_port c" j env ports g]
      ctl_set.other_ports [of "cc_port c" j env k v ports g]
      ctl_multi.other_ports [of "cc_port c" j env kvs ports g]
      ctl_reset.other_ports [of "cc_port c" j env ports g]
    by (subst (1 2 3 4 5 6 7 8 9 10 11 12) c)
      (auto simp: controller_defs case_prod_unfold Let_def split: option.splits)
qed

lemma open_with_object_closed:
  assumes "i < length ports" and "m_state (ports ! i) = CLOSED" and "\<not> client_gone env l"
  shows "open_with_object env l i ports g objs =
    (StatusOk, Some (Some (newController env)), ports[i := opened_port env l (ports ! i)], g,
     objs(newController env \<mapsto> CompositeInputController (Some i)))"
  using assms by (simp add: open_with_object_def open_closed openEnter_def setStateLocked_def Let_def)

text \<open>
  C29: only \<open>close\<close> asks who is calling. A client opens a port and closes it again; another
  client opens it and gets a controller of its own. The controller that the first client has kept
  can no longer close the port, but its \<open>start\<close> and \<open>stop\<close> succeed, within the session of the
  second client, and each of its five methods does whatever the second client's controller does.
\<close>

theorem stale_controller_still_drives_port:
  assumes "i < length ports" and "m_state (ports ! i) = CLOSED"
    and "\<not> client_gone env1 l1" and "\<not> client_gone env2 l2" and "newController env1 \<noteq> newController env2"
    and "0 \<le> g_startedPorts g" and "g_startedPorts g < g_maxStartedPorts g"
  shows "let c1 = newController env1; c2 = newController env2;
      (st1, r1, ports1, g1, objs1) = open_with_object env1 l1 i ports g objs;
      (st2, done, p2, es2) = close_port env (Some c1) (Some False) (ports1 ! i);
      (st3, r3, ports3, g3, objs3) = open_with_object env2 l2 i (ports1[i := p2]) g1 objs1
    in (st1, r1, st2, done, st3, r3) =
         (StatusOk, Some (Some c1), StatusOk, Some True, StatusOk, Some (Some c2)) \<and>
       close_port env (Some c1) (Some True) (ports3 ! i) = (StatusOk, Some False, ports3 ! i, []) \<and>
       (case (objs3 c1, objs3 c2) of
          (Some stale, Some current) \<Rightarrow>
            (let (st4, ports4, g4, es4) = controller_start env stale ports3 g3;
                 (st5, ports5, g5, es5) = controller_stop env stale ports4 g4
             in st4 = StatusOk \<and> m_state (ports4 ! i) = STARTED \<and> m_controller (ports4 ! i) = Some c2 \<and>
                st5 = StatusOk \<and> m_state (ports5 ! i) = READY \<and> m_controller (ports5 ! i) = Some c2) \<and>
            (\<forall>env ps g k v kvs.
               controller_start env stale ps g = controller_start env current ps g \<and>
               controller_stop env stale ps g = controller_stop env current ps g \<and>
               controller_setProperty env stale k v ps = controller_setProperty env current k v ps \<and>
               controller_setPropertyMulti env stale kvs ps = controller_setPropertyMulti env current kvs ps \<and>
               controller_resetMetrics env stale ps = controller_resetMetrics env current ps)
        | _ \<Rightarrow> False)"
  using assms
  by (simp add: open_with_object_closed close_ready close_foreign controller_start_def controller_stop_def
      CompositeInputController_def start_ready stop_started Let_def)

theorem stale_controller_still_drives_port_witness:
  "let env2 = demo_env\<lparr>newController := 43\<rparr>;
      (st1, r1, ports1, g1, objs1) = open_with_object demo_env 5 0 [CompositeInputPort 0] initial_globals Map.empty;
      (st2, done, p2, es2) = close_port demo_env (Some 42) (Some False) (ports1 ! 0);
      (st3, r3, ports3, g3, objs3) = open_with_object env2 6 0 (ports1[0 := p2]) g1 objs1
    in r1 = Some (Some 42) \<and> r3 = Some (Some 43) \<and>
       close_port demo_env (Some 42) (Some True) (ports3 ! 0) = (StatusOk, Some False, ports3 ! 0, []) \<and>
       (case objs3 42 of None \<Rightarrow> False | Some stale \<Rightarrow> fst (controller_start demo_env stale ports3 g3) = StatusOk)"
proof -
  let ?env2 = "demo_env\<lparr>newController := 43\<rparr>" and ?ports = "[CompositeInputPort 0]"
  obtain st1 r1 ports1 g1 objs1 where o1:
    "open_with_object demo_env 5 0 ?ports initial_globals Map.empty = (st1, r1, ports1, g1, objs1)"
    by (cases "open_with_object demo_env 5 0 ?ports initial_globals Map.empty") auto
  obtain st2 ret2 p2 es2 where o2: "close_port demo_env (Some 42) (Some False) (ports1 ! 0) = (st2, ret2, p2, es2)"
    by (cases "close_port demo_env (Some 42) (Some False) (ports1 ! 0)") auto
  obtain st3 r3 ports3 g3 objs3 where o3:
    "open_with_object ?env2 6 0 (ports1[0 := p2]) g1 objs1 = (st3, r3, ports3, g3, objs3)"
    by (cases "open_with_object ?env2 6 0 (ports1[0 := p2]) g1 objs1") auto
  have alive: "\<not> client_gone demo_env 5" "\<not> client_gone ?env2 6" by code_simp+
  have new: "newController demo_env = 42" by (simp add: demo_env_def)
  have start: "0 < length ?ports" "m_state (?ports ! 0) = CLOSED" "0 \<le> g_startedPorts initial_globals"
    "g_startedPorts initial_globals < g_maxStartedPorts initial_globals"
    by (simp_all add: CompositeInputPort_def initial_globals_def)
  have "newController demo_env \<noteq> newController ?env2" by (simp add: new)
  note stale_controller_still_drives_port [OF start(1,2) alive this start(3,4), of Map.empty demo_env]
  then show ?thesis
    unfolding Let_def new o1 by (auto simp: o2 o3 split: option.splits)
qed

end
