(* ===== verification/Number_Text.thy ===== *)
theory Number_Text
  imports Helper
begin

text \<open>
  Numbers as text: \<open>strtol\<close> and \<open>std::to_string\<close> of the C and C++ standard libraries, as the
  profile parser and the command line use them, and that reading inverts printing. Strings
  are what \<open>c_str()\<close> yields up to its terminator, so they hold no NUL.
\<close>

section \<open>Digits\<close>

definition digit_value :: "char \<Rightarrow> nat option" where
  "digit_value c =
     (let n = of_char c :: nat in
      if 48 \<le> n \<and> n \<le> 57 then Some (n - 48)
      else if 97 \<le> n \<and> n \<le> 122 then Some (n - 87)
      else if 65 \<le> n \<and> n \<le> 90 then Some (n - 55)
      else None)"

definition is_digit :: "nat \<Rightarrow> char \<Rightarrow> bool" where
  "is_digit base c \<longleftrightarrow> (case digit_value c of None \<Rightarrow> False | Some d \<Rightarrow> d < base)"

definition digits_value :: "nat \<Rightarrow> string \<Rightarrow> nat" where
  "digits_value base ds = foldl (\<lambda>acc c. acc * base + the (digit_value c)) 0 ds"

section \<open>strtol\<close>

text \<open>
  \<open>strtol width base s\<close> for a \<open>long\<close> of \<open>width\<close> bits. \<open>None\<close>: no conversion, and the end
  pointer is the start. Otherwise the value, saturated at the range of \<open>long\<close>; whether it
  was out of range (\<open>errno = ERANGE\<close>); and the text at the end pointer. Base 0 reads the
  prefixes \<open>0x\<close> and \<open>0\<close>, as in C17.
\<close>

definition split_sign :: "string \<Rightarrow> bool \<times> string" where
  "split_sign s =
     (case s of
        [] \<Rightarrow> (False, [])
      | c # cs \<Rightarrow> if c = CHR ''-'' then (True, cs) else if c = CHR ''+'' then (False, cs) else (False, s))"

definition split_base :: "nat \<Rightarrow> string \<Rightarrow> nat \<times> string" where
  "split_base base s =
     (if base = 0 \<or> base = 16
      then (case s of
              c0 # x # h # rest \<Rightarrow>
                if c0 = CHR ''0'' \<and> (x = CHR ''x'' \<or> x = CHR ''X'') \<and> is_digit 16 h
                then (16, h # rest)
                else (if base = 16 then 16 else if c0 = CHR ''0'' then 8 else 10, s)
            | c0 # rest \<Rightarrow> (if base = 16 then 16 else if c0 = CHR ''0'' then 8 else 10, s)
            | [] \<Rightarrow> (if base = 16 then 16 else 10, s))
      else (base, s))"

definition strtol :: "nat \<Rightarrow> nat \<Rightarrow> string \<Rightarrow> (int \<times> bool \<times> string) option" where
  "strtol width base s =
     (let (neg, s1) = split_sign (dropWhile isspace s);
          (b, s2) = split_base base s1;
          ds = takeWhile (is_digit b) s2;
          v = (if neg then - int (digits_value b ds) else int (digits_value b ds));
          low = - (2 ^ (width - 1)); high = 2 ^ (width - 1) - 1
      in if ds = [] then None
         else Some (max low (min high v), v < low \<or> high < v, dropWhile (is_digit b) s2))"

section \<open>Printing\<close>

definition digit_char :: "nat \<Rightarrow> char" where
  "digit_char d = char_of (48 + d)"

fun show_nat :: "nat \<Rightarrow> string" where
  "show_nat n = (if n < 10 then [digit_char n] else show_nat (n div 10) @ [digit_char (n mod 10)])"

declare show_nat.simps [simp del]

definition show_int :: "int \<Rightarrow> string" where
  "show_int i = (if i < 0 then CHR ''-'' # show_nat (nat (- i)) else show_nat (nat i))"

section \<open>Reading what was printed\<close>

lemma digit_char_value: "d < 10 \<Longrightarrow> digit_value (digit_char d) = Some d"
  by (simp add: digit_char_def digit_value_def Let_def of_char_of take_bit_nat_def)

lemma digit_char_digit: "d < 10 \<Longrightarrow> is_digit 10 (digit_char d)"
  by (simp add: is_digit_def digit_char_value)

lemma show_nat_digits: "list_all (is_digit 10) (show_nat n)"
  by (induction n rule: show_nat.induct) (auto simp: show_nat.simps [of _] digit_char_digit
      list_all_append split: if_splits)

lemma digits_value_snoc:
  "digits_value b (ds @ [c]) = digits_value b ds * b + the (digit_value c)"
  by (simp add: digits_value_def)

lemma show_nat_value: "digits_value 10 (show_nat n) = n"
proof (induction n rule: show_nat.induct)
  case (1 n)
  show ?case
  proof (cases "n < 10")
    case True
    then show ?thesis by (simp add: show_nat.simps [of n] digits_value_def digit_char_value)
  next
    case False
    with 1 show ?thesis
      by (subst show_nat.simps) (simp add: digits_value_snoc digit_char_value)
  qed
qed

lemma show_nat_not_Nil [simp]: "show_nat n \<noteq> []"
  by (subst show_nat.simps) simp

text \<open>The first digit of a number other than 0 is not \<open>0\<close>, so base 0 reads it as decimal.\<close>

lemma digit_char_inj: "d < 10 \<Longrightarrow> e < 10 \<Longrightarrow> digit_char d = digit_char e \<longleftrightarrow> d = e"
  by (metis digit_char_value option.inject)

lemma zero_char: "CHR ''0'' = digit_char 0"
  by code_simp

lemma show_nat_head: "0 < n \<Longrightarrow> hd (show_nat n) \<noteq> CHR ''0''"
proof (induction n rule: show_nat.induct)
  case (1 n)
  show ?case
  proof (cases "n < 10")
    case True
    with 1 show ?thesis by (simp add: show_nat.simps [of n] zero_char digit_char_inj)
  next
    case False
    with 1 show ?thesis by (subst show_nat.simps) (simp add: div_greater_zero_iff)
  qed
qed

lemma digit_not_space_or_sign:
  assumes "is_digit 10 c"
  shows "\<not> isspace c" and "c \<noteq> CHR ''-''" and "c \<noteq> CHR ''+''" and "c \<noteq> CHR ''x''" and "c \<noteq> CHR ''X''"
  using assms by (auto simp: is_digit_def digit_value_def isspace_def Let_def)


lemma split_sign_plain: "s \<noteq> [] \<Longrightarrow> is_digit 10 (hd s) \<Longrightarrow> split_sign s = (False, s)"
  by (cases s) (auto simp: split_sign_def dest: digit_not_space_or_sign)

lemma show_nat_zero: "show_nat 0 = ''0''"
  by (simp add: show_nat.simps [of 0] zero_char)

lemma show_nat_hd_digit: "is_digit 10 (hd (show_nat n))"
  using show_nat_digits [of n] show_nat_not_Nil [of n] by (cases "show_nat n") auto

lemma split_base_decimal:
  assumes "base = 0 \<or> base = 10" and "s = show_nat n"
  shows "split_base base s = (10, s) \<or> (n = 0 \<and> split_base base s = (8, s))"
proof (cases "n = 0")
  case True
  with assms show ?thesis by (auto simp: split_base_def show_nat_zero)
next
  case False
  then have h: "hd s \<noteq> CHR ''0''" using assms show_nat_head by simp
  moreover have "s \<noteq> []" using assms by simp
  ultimately show ?thesis
    using assms(1) by (auto simp: split_base_def split: list.split)
qed

lemma read_show_nat:
  assumes "base = 0 \<or> base = 10" and b_def: "b = fst (split_base base (show_nat n))"
  shows "snd (split_base base (show_nat n)) = show_nat n"
    and "takeWhile (is_digit b) (show_nat n) = show_nat n"
    and "dropWhile (is_digit b) (show_nat n) = []"
    and "digits_value b (show_nat n) = n"
proof -
  have ten: "takeWhile (is_digit 10) (show_nat n) = show_nat n" "dropWhile (is_digit 10) (show_nat n) = []"
    using show_nat_digits [of n] by (auto simp: list_all_iff takeWhile_eq_all_conv)
  have zero: "is_digit 8 CHR ''0''" "digits_value 8 ''0'' = 0"
    by (simp_all add: zero_char is_digit_def digit_char_value digits_value_def)
  from split_base_decimal [OF assms(1) refl, of n]
  show "snd (split_base base (show_nat n)) = show_nat n"
    and "takeWhile (is_digit b) (show_nat n) = show_nat n"
    and "dropWhile (is_digit b) (show_nat n) = []"
    and "digits_value b (show_nat n) = n"
    using ten zero by (auto simp: b_def show_nat_zero show_nat_value)
qed

text \<open>Reading a printed number gives the number, saturated at the range of \<open>long\<close>.\<close>

definition saturate :: "nat \<Rightarrow> int \<Rightarrow> int" where
  "saturate width v = max (- (2 ^ (width - 1))) (min (2 ^ (width - 1) - 1) v)"

lemma saturate_inside [simp]:
  "- (2 ^ (width - 1)) \<le> v \<Longrightarrow> v < 2 ^ (width - 1) \<Longrightarrow> saturate width v = v"
  by (simp add: saturate_def)

lemma strtol_show_nat:
  assumes "base = 0 \<or> base = 10" and "split_sign (dropWhile isspace s) = (neg, show_nat n)"
    and "v = (if neg then - int n else int n)"
  shows "strtol width base s = Some (saturate width v, saturate width v \<noteq> v, [])"
proof -
  obtain b where b: "split_base base (show_nat n) = (b, show_nat n)"
    using read_show_nat(1) [OF assms(1) refl, of n] by (cases "split_base base (show_nat n)") auto
  note read = read_show_nat(2-4) [OF assms(1), of b n, unfolded b fst_conv, OF refl]
  have "(x < - k \<or> k - 1 < x) = (max (- k) (min (k - 1) x) \<noteq> x)" if "1 \<le> k" for k x :: int
    using that by (auto simp: max_def min_def)
  from this [of "2 ^ (width - 1)" v]
  have "(v < - (2 ^ (width - 1)) \<or> 2 ^ (width - 1) - 1 < v) = (saturate width v \<noteq> v)"
    by (simp add: saturate_def)
  then show ?thesis
    unfolding strtol_def Let_def assms(2) prod.case b read assms(3) [symmetric] saturate_def by simp
qed

lemma strtol_show_int:
  assumes "base = 0 \<or> base = 10"
  shows "strtol width base (show_int i) = Some (saturate width i, saturate width i \<noteq> i, [])"
proof (cases "i < 0")
  case True
  then have "split_sign (dropWhile isspace (show_int i)) = (True, show_nat (nat (- i)))"
    by (simp add: show_int_def split_sign_def isspace_def)
  from strtol_show_nat [OF assms(1) this refl] True show ?thesis by simp
next
  case False
  have "dropWhile isspace (show_nat (nat i)) = show_nat (nat i)"
    using show_nat_hd_digit [of "nat i"] show_nat_not_Nil [of "nat i"]
    by (cases "show_nat (nat i)") (auto dest: digit_not_space_or_sign)
  then have "split_sign (dropWhile isspace (show_int i)) = (False, show_nat (nat i))"
    using False show_nat_hd_digit by (simp add: show_int_def split_sign_plain)
  from strtol_show_nat [OF assms(1) this refl] False show ?thesis by simp
qed

end
