(* ===== verification/Parse_Config.thy ===== *)
theory Parse_Config
  imports Number_Text Ut_Commands
begin

text \<open>
  \<open>vcomponent_CompositeInputParseConfig.cpp\<close>: the validated parser of the HFP profile. A
  reader returns \<open>Inl\<close> with the message that the code stores through \<open>outError\<close>, or
  \<open>Inr\<close> with the value. A reader that the code gives a null output pointer answers with the
  internal error of the code; the outputs are therefore \<open>out\<close> cells. Opening a profile
  (\<open>ut_kvp_createInstance\<close>, \<open>ut_kvp_open\<close>) is a parameter.
\<close>

section \<open>Results\<close>

type_synonym 'a result = "string + 'a"

fun bindR :: "'a result \<Rightarrow> ('a \<Rightarrow> 'b result) \<Rightarrow> 'b result" where
  "bindR (Inl e) f = Inl e"
| "bindR (Inr x) f = f x"

lemma bindR_Inr_iff: "bindR r f = Inr y \<longleftrightarrow> (\<exists>x. r = Inr x \<and> f x = Inr y)"
  by (cases r) auto

fun okR :: "'a result \<Rightarrow> bool" where
  "okR (Inl e) = False"
| "okR (Inr x) = True"

section \<open>Keys\<close>

definition kCompositeInputRoot :: string where "kCompositeInputRoot = ''compositeinput''"
definition kInterfaceVersionKey :: string where
  "kInterfaceVersionKey = ''compositeinput.interfaceVersion''"
definition kPortsKey :: string where "kPortsKey = ''compositeinput.ports''"
definition kPlatformCapabilitiesKey :: string where
  "kPlatformCapabilitiesKey = ''compositeinput.platformCapabilities''"

text \<open>\<open>UT_KVP_MAX_ELEMENT_SIZE\<close> is a constant of ut-core, hence an argument: \<open>bufSize\<close>.\<close>

section \<open>Scalars\<close>

definition parseInt32 :: "nat \<Rightarrow> string \<Rightarrow> int out \<Rightarrow> bool \<times> int out" where
  "parseInt32 longBits v outValue =
     (case outValue of
        None \<Rightarrow> (False, None)
      | Some old \<Rightarrow>
          if v = [] then (False, Some old)
          else case strtol longBits 0 v of
                 None \<Rightarrow> (False, Some old)
               | Some (n, outOfRange, rest) \<Rightarrow>
                   if outOfRange \<or> rest \<noteq> [] \<or> n < - (2 ^ 31) \<or> n > 2 ^ 31 - 1
                   then (False, Some old) else (True, Some n))"

definition parseBool :: "string \<Rightarrow> bool out \<Rightarrow> bool \<times> bool out" where
  "parseBool v outValue =
     (case outValue of
        None \<Rightarrow> (False, None)
      | Some old \<Rightarrow>
          if v = ''true'' \<or> v = ''True'' \<or> v = ''TRUE'' \<or> v = ''1'' then (True, Some True)
          else if v = ''false'' \<or> v = ''False'' \<or> v = ''FALSE'' \<or> v = ''0'' then (True, Some False)
          else (False, Some old))"

section \<open>Fields\<close>

definition fieldPresent :: "kvp sp \<Rightarrow> string \<Rightarrow> bool" where
  "fieldPresent instance key =
     (case instance of None \<Rightarrow> False | Some kvp \<Rightarrow> ut_kvp_fieldPresent kvp key)"

definition readStringField ::
  "nat \<Rightarrow> kvp \<Rightarrow> string \<Rightarrow> string out \<Rightarrow> bool \<Rightarrow> string result" where
  "readStringField bufSize kvp key outValue required =
     (case outValue of
        None \<Rightarrow> Inl (''internal parser error: null string output for key '' @ key)
      | Some old \<Rightarrow>
          if \<not> fieldPresent (Some kvp) key
          then (if required then Inl (''required CompositeInput HFP field is missing: '' @ key)
                else Inr old)
          else
            (let (st, buffer) = ut_kvp_getStringField kvp key bufSize
             in if st \<noteq> UT_KVP_STATUS_SUCCESS
                then Inl (''failed to read CompositeInput HFP string field: '' @ key)
                else if required \<and> buffer = []
                then Inl (''required CompositeInput HFP field is empty: '' @ key)
                else Inr buffer))"

definition readInt32Field ::
  "nat \<Rightarrow> nat \<Rightarrow> kvp \<Rightarrow> string \<Rightarrow> int out \<Rightarrow> bool \<Rightarrow> int out result" where
  "readInt32Field longBits bufSize kvp key outValue required =
     bindR (readStringField bufSize kvp key (Some []) required) (\<lambda>v.
       if v = [] \<and> \<not> required then Inr outValue
       else case parseInt32 longBits v outValue of
              (True, r) \<Rightarrow> Inr r
            | (False, r) \<Rightarrow>
                Inl (''failed to parse CompositeInput HFP integer field: '' @ key @ '' value='' @ v))"

definition readBoolField ::
  "nat \<Rightarrow> kvp \<Rightarrow> string \<Rightarrow> bool out \<Rightarrow> bool \<Rightarrow> bool out result" where
  "readBoolField bufSize kvp key outValue required =
     bindR (readStringField bufSize kvp key (Some []) required) (\<lambda>v.
       if v = [] \<and> \<not> required then Inr outValue
       else case parseBool v outValue of
              (True, r) \<Rightarrow> Inr r
            | (False, r) \<Rightarrow>
                Inl (''failed to parse CompositeInput HFP boolean field: '' @ key @ '' value='' @ v))"

text \<open>The item loop of \<open>readStringList\<close>: \<open>n\<close> items from \<open>index\<close> on.\<close>

fun readItems :: "nat \<Rightarrow> kvp \<Rightarrow> string \<Rightarrow> nat \<Rightarrow> nat \<Rightarrow> string list result" where
  "readItems bufSize kvp key index 0 = Inr []"
| "readItems bufSize kvp key index (Suc n) =
     bindR (readStringField bufSize kvp (key @ ''.'' @ show_nat index) (Some []) True) (\<lambda>v.
       bindR (readItems bufSize kvp key (Suc index) n) (\<lambda>vs. Inr (v # vs)))"

definition readStringList ::
  "nat \<Rightarrow> kvp \<Rightarrow> string \<Rightarrow> string list out \<Rightarrow> bool \<Rightarrow> string list result" where
  "readStringList bufSize kvp key outValues required =
     (case outValues of
        None \<Rightarrow> Inl (''internal parser error: null string-list output for key '' @ key)
      | Some _ \<Rightarrow>
          if \<not> fieldPresent (Some kvp) key
          then (if required then Inl (''required CompositeInput HFP list is missing: '' @ key)
                else Inr [])
          else readItems bufSize kvp key 0 (unat (ut_kvp_getListCount kvp key)))"

section \<open>Property declarations\<close>

fun validateTokens :: "string \<Rightarrow> nat \<Rightarrow> string list \<Rightarrow> string list \<Rightarrow> unit result" where
  "validateTokens keyPrefix index seen [] = Inr ()"
| "validateTokens keyPrefix index seen (token # tokens) =
     (if portProperty_of token = None
      then Inl (''unsupported CompositeInput PortProperty token at '' @ keyPrefix @
                ''.supportedProperties.'' @ show_nat index @ '': '' @ token)
      else if token \<in> set seen
      then Inl (''duplicate CompositeInput PortProperty token at '' @ keyPrefix @
                ''.supportedProperties.'' @ show_nat index @ '': '' @ token)
      else validateTokens keyPrefix (Suc index) (token # seen) tokens)"

fun validateMetadata ::
  "string \<Rightarrow> nat \<Rightarrow> string list \<Rightarrow> property_metadata_config list \<Rightarrow> unit result" where
  "validateMetadata keyPrefix index properties [] = Inr ()"
| "validateMetadata keyPrefix index properties (entry # entries) =
     (if portProperty_of (mc_key entry) = None
      then Inl (''unsupported CompositeInput propertyMetadata key at '' @ keyPrefix @
                ''.propertyMetadata.'' @ show_nat index @ ''.key: '' @ mc_key entry)
      else if propertyType_of (mc_type entry) = None
      then Inl (''unsupported CompositeInput propertyMetadata type at '' @ keyPrefix @
                ''.propertyMetadata.'' @ show_nat index @ ''.type: '' @ mc_type entry)
      else if mc_key entry \<noteq> properties ! index
      then Inl (''CompositeInput propertyMetadata ordering does not match supportedProperties at '' @
                keyPrefix @ ''.propertyMetadata.'' @ show_nat index)
      else if mc_description entry = []
      then Inl (''required CompositeInput HFP field is empty: '' @ keyPrefix @
                ''.propertyMetadata.'' @ show_nat index @ ''.description'')
      else validateMetadata keyPrefix (Suc index) properties entries)"

definition validateProperties ::
  "string list \<Rightarrow> property_metadata_config list \<Rightarrow> string \<Rightarrow> unit result" where
  "validateProperties properties metadata keyPrefix =
     bindR (validateTokens keyPrefix 0 [] properties) (\<lambda>_.
       if length metadata \<noteq> length properties
       then Inl (''CompositeInput propertyMetadata count must match supportedProperties at '' @ keyPrefix)
       else validateMetadata keyPrefix 0 properties metadata)"

text \<open>
  One entry: the five reads of the code, in its order; each assigns a field of the entry.
\<close>

definition readEntry :: "nat \<Rightarrow> kvp \<Rightarrow> string \<Rightarrow> property_metadata_config result" where
  "readEntry bufSize kvp prefix =
     (let e = default_metadata_config in
      bindR (readStringField bufSize kvp (prefix @ ''key'') (Some (mc_key e)) True) (\<lambda>k.
      bindR (readStringField bufSize kvp (prefix @ ''type'') (Some (mc_type e)) True) (\<lambda>t.
      bindR (readBoolField bufSize kvp (prefix @ ''readOnly'') (Some (mc_readOnly e)) True) (\<lambda>r.
      bindR (readBoolField bufSize kvp (prefix @ ''isMetric'') (Some (mc_isMetric e)) True) (\<lambda>m.
      bindR (readStringField bufSize kvp (prefix @ ''description'') (Some (mc_description e)) True) (\<lambda>d.
        Inr \<lparr>mc_key = k, mc_type = t, mc_readOnly = the r, mc_isMetric = the m,
             mc_description = d\<rparr>))))))"

fun readEntries ::
  "nat \<Rightarrow> kvp \<Rightarrow> string \<Rightarrow> nat \<Rightarrow> nat \<Rightarrow> property_metadata_config list result" where
  "readEntries bufSize kvp key index 0 = Inr []"
| "readEntries bufSize kvp key index (Suc n) =
     bindR (readEntry bufSize kvp (key @ ''.'' @ show_nat index @ ''.'')) (\<lambda>e.
       bindR (readEntries bufSize kvp key (Suc index) n) (\<lambda>es. Inr (e # es)))"

definition readPropertyMetadata ::
  "nat \<Rightarrow> kvp \<Rightarrow> string \<Rightarrow> property_metadata_config list out \<Rightarrow>
   property_metadata_config list result" where
  "readPropertyMetadata bufSize kvp key outValues =
     (case outValues of
        None \<Rightarrow> Inl (''internal parser error: null metadata output for key '' @ key)
      | Some _ \<Rightarrow>
          if \<not> fieldPresent (Some kvp) key
          then Inl (''required CompositeInput HFP list is missing: '' @ key)
          else readEntries bufSize kvp key 0 (unat (ut_kvp_getListCount kvp key)))"

section \<open>Ports and platform\<close>

definition readPort :: "nat \<Rightarrow> nat \<Rightarrow> kvp \<Rightarrow> nat \<Rightarrow> port_config out \<Rightarrow> port_config result" where
  "readPort longBits bufSize kvp index outPort =
     (case outPort of
        None \<Rightarrow> Inl ''internal parser error: null port output''
      | Some _ \<Rightarrow>
          (let p = default_port_config;
               prefix = kPortsKey @ ''.'' @ show_nat index @ ''.''
           in
           bindR (readInt32Field longBits bufSize kvp (prefix @ ''id'') (Some (cp_id p)) True) (\<lambda>i.
           bindR (readStringField bufSize kvp (prefix @ ''name'') (Some (cp_name p)) True) (\<lambda>n.
           bindR (readStringField bufSize kvp (prefix @ ''description'') (Some (cp_description p)) True) (\<lambda>d.
           bindR (readStringList bufSize kvp (prefix @ ''supportedProperties'')
                   (Some (cp_supportedProperties p)) True) (\<lambda>ps.
           bindR (readPropertyMetadata bufSize kvp (prefix @ ''propertyMetadata'')
                   (Some (cp_propertyMetadata p))) (\<lambda>ms.
             if the i < 0
             then Inl (''CompositeInput port ID must be nonnegative: '' @ prefix @ ''id'')
             else bindR (validateProperties ps ms (take (length prefix - 1) prefix)) (\<lambda>_.
                    Inr \<lparr>cp_id = the i, cp_name = n, cp_description = d,
                         cp_supportedProperties = ps, cp_propertyMetadata = ms\<rparr>))))))))"

definition readPlatformCapabilities ::
  "nat \<Rightarrow> nat \<Rightarrow> kvp \<Rightarrow> hfp_config out \<Rightarrow> hfp_config result" where
  "readPlatformCapabilities longBits bufSize kvp outConfig =
     (case outConfig of
        None \<Rightarrow> Inl ''internal parser error: null configuration output''
      | Some c \<Rightarrow>
          if \<not> fieldPresent (Some kvp) kPlatformCapabilitiesKey
          then Inl ''required CompositeInput HFP profile is missing: compositeinput.platformCapabilities''
          else
          (let prefix = kPlatformCapabilitiesKey @ ''.'' in
           bindR (readStringField bufSize kvp (prefix @ ''halVersion'') (Some (hc_halVersion c)) True) (\<lambda>v.
           bindR (readInt32Field longBits bufSize kvp (prefix @ ''maxPorts'')
                   (Some (hc_maxPorts c)) True) (\<lambda>mp.
           bindR (readInt32Field longBits bufSize kvp (prefix @ ''maximumConcurrentStartedPorts'')
                   (Some (hc_maximumConcurrentStartedPorts c)) True) (\<lambda>mc.
           bindR (readStringList bufSize kvp (prefix @ ''supportedProperties'')
                   (Some (hc_supportedProperties c)) True) (\<lambda>ps.
           bindR (readPropertyMetadata bufSize kvp (prefix @ ''propertyMetadata'')
                   (Some (hc_propertyMetadata c))) (\<lambda>ms.
           bindR (readBoolField bufSize kvp (prefix @ ''features.macrovisionDetectionSupported'')
                   (Some (hc_macrovisionDetectionSupported c)) True) (\<lambda>mv.
             if the mp < 1
             then Inl (''CompositeInput maxPorts must be at least one: '' @ prefix @ ''maxPorts'')
             else if the mc < 1
             then Inl (''CompositeInput maximumConcurrentStartedPorts must be at least one: '' @
                       prefix @ ''maximumConcurrentStartedPorts'')
             else bindR (validateProperties ps ms (take (length prefix - 1) prefix)) (\<lambda>_.
                    Inr (c\<lparr>hc_halVersion := v, hc_maxPorts := the mp,
                           hc_maximumConcurrentStartedPorts := the mc,
                           hc_supportedProperties := ps, hc_propertyMetadata := ms,
                           hc_macrovisionDetectionSupported := the mv\<rparr>))))))))))"

section \<open>The profile\<close>

fun readPorts ::
  "nat \<Rightarrow> nat \<Rightarrow> kvp \<Rightarrow> nat \<Rightarrow> nat \<Rightarrow> int list \<Rightarrow> port_config list result" where
  "readPorts longBits bufSize kvp index 0 portIds = Inr []"
| "readPorts longBits bufSize kvp index (Suc n) portIds =
     bindR (readPort longBits bufSize kvp index (Some default_port_config)) (\<lambda>p.
       if cp_id p \<in> set portIds
       then Inl (''duplicate CompositeInput port ID at compositeinput.ports.'' @ show_nat index @
                 ''.id: '' @ show_int (cp_id p))
       else bindR (readPorts longBits bufSize kvp (Suc index) n (cp_id p # portIds)) (\<lambda>ps.
              Inr (p # ps)))"

definition readProfile :: "nat \<Rightarrow> nat \<Rightarrow> kvp \<Rightarrow> hfp_config result" where
  "readProfile longBits bufSize kvp =
     (let c = default_hfp_config in
      if \<not> fieldPresent (Some kvp) kCompositeInputRoot
      then Inl ''missing top-level CompositeInput HFP profile: compositeinput''
      else bindR (readStringField bufSize kvp kInterfaceVersionKey (Some (hc_interfaceVersion c)) True) (\<lambda>v.
        if \<not> fieldPresent (Some kvp) kPortsKey
        then Inl ''required CompositeInput HFP list is missing: compositeinput.ports''
        else
          (let portCount = unat (ut_kvp_getListCount kvp kPortsKey) in
           if portCount = 0
           then Inl ''CompositeInput HFP must declare at least one port: compositeinput.ports''
           else bindR (readPorts longBits bufSize kvp 0 portCount []) (\<lambda>ps.
             readPlatformCapabilities longBits bufSize kvp
               (Some (c\<lparr>hc_interfaceVersion := v, hc_ports := ps\<rparr>))))))"

text \<open>
  \<open>configurationFile\<close> is a nullable C string, \<open>openKvp\<close> what
  \<open>kvpCreateInstance\<close> obtains for a non-empty path. The result is the return value, the
  configuration, and what \<open>outError\<close> points to, if it points to anything.
\<close>

definition kvpCreateInstance :: "(string \<Rightarrow> kvp sp) \<Rightarrow> string sp \<Rightarrow> kvp sp" where
  "kvpCreateInstance openKvp fileName =
     (case fileName of
        None \<Rightarrow> None
      | Some path \<Rightarrow> if path = [] then None else openKvp path)"

definition parseConfig ::
  "nat \<Rightarrow> nat \<Rightarrow> (string \<Rightarrow> kvp sp) \<Rightarrow> string sp \<Rightarrow> string out \<Rightarrow> bool \<times> hfp_config \<times> string out" where
  "parseConfig longBits bufSize openKvp configurationFile outError =
     (let failed = (\<lambda>msg. (False, default_hfp_config, map_option (\<lambda>_. msg) outError)) in
      case configurationFile of
        None \<Rightarrow> failed ''CompositeInput HFP YAML path is empty''
      | Some path \<Rightarrow>
          if path = [] then failed ''CompositeInput HFP YAML path is empty''
          else (case kvpCreateInstance openKvp (Some path) of
                  None \<Rightarrow> failed (''failed to open CompositeInput HFP YAML: '' @ path)
                | Some kvp \<Rightarrow>
                    (case readProfile longBits bufSize kvp of
                       Inl msg \<Rightarrow> failed msg
                     | Inr c \<Rightarrow> (True, c, map_option (\<lambda>_. []) outError))))"

definition loadHfpConfig ::
  "nat \<Rightarrow> nat \<Rightarrow> (string \<Rightarrow> kvp sp) \<Rightarrow> string \<Rightarrow> hfp_config out \<Rightarrow> string out \<Rightarrow>
   bool \<times> hfp_config out \<times> string out" where
  "loadHfpConfig longBits bufSize openKvp path outConfig outError =
     (case outConfig of
        None \<Rightarrow> (False, None, map_option (\<lambda>_. ''outConfig is null'') outError)
      | Some _ \<Rightarrow>
          (let (ok, c, err) = parseConfig longBits bufSize openKvp (Some path) outError
           in (ok, Some c, err)))"


section \<open>What a profile promises\<close>

definition wf_properties :: "string list \<Rightarrow> property_metadata_config list \<Rightarrow> bool" where
  "wf_properties properties metadata \<longleftrightarrow>
     list_all (\<lambda>t. portProperty_of t \<noteq> None) properties \<and> distinct properties \<and>
     map mc_key metadata = properties \<and>
     list_all (\<lambda>e. propertyType_of (mc_type e) \<noteq> None \<and> mc_description e \<noteq> []) metadata"

definition wf_port :: "port_config \<Rightarrow> bool" where
  "wf_port p \<longleftrightarrow>
     0 \<le> cp_id p \<and> in_int32 (cp_id p) \<and> cp_name p \<noteq> [] \<and> cp_description p \<noteq> [] \<and>
     wf_properties (cp_supportedProperties p) (cp_propertyMetadata p)"

definition wf_config :: "hfp_config \<Rightarrow> bool" where
  "wf_config c \<longleftrightarrow>
     hc_interfaceVersion c \<noteq> [] \<and> hc_halVersion c \<noteq> [] \<and>
     hc_ports c \<noteq> [] \<and> list_all wf_port (hc_ports c) \<and> distinct (map cp_id (hc_ports c)) \<and>
     1 \<le> hc_maxPorts c \<and> in_int32 (hc_maxPorts c) \<and>
     1 \<le> hc_maximumConcurrentStartedPorts c \<and> in_int32 (hc_maximumConcurrentStartedPorts c) \<and>
     wf_properties (hc_supportedProperties c) (hc_propertyMetadata c)"

lemma validateTokens_ok:
  "okR (validateTokens k i seen ts) \<longleftrightarrow>
     list_all (\<lambda>t. portProperty_of t \<noteq> None) ts \<and> distinct ts \<and> set ts \<inter> set seen = {}"
  by (induction ts arbitrary: i seen) auto

lemma validateMetadata_ok:
  "i + length es = length ps \<Longrightarrow>
   okR (validateMetadata k i ps es) \<longleftrightarrow>
     list_all (\<lambda>e. portProperty_of (mc_key e) \<noteq> None \<and> propertyType_of (mc_type e) \<noteq> None \<and>
                   mc_description e \<noteq> []) es \<and>
     map mc_key es = drop i ps"
proof (induction es arbitrary: i)
  case (Cons e es)
  then have "drop i ps = ps ! i # drop (Suc i) ps" by (intro Cons_nth_drop_Suc [symmetric]) simp
  with Cons show ?case by auto
qed simp

lemma okR_bind: "okR (bindR r f) \<longleftrightarrow> (\<exists>x. r = Inr x \<and> okR (f x))"
  by (cases r) auto

lemma okR_unit: "r = Inr () \<longleftrightarrow> okR r"
  by (cases r) auto

lemma validateProperties_ok:
  "validateProperties ps ms k = Inr () \<longleftrightarrow> wf_properties ps ms"
proof -
  have keys: "map mc_key ms = ps \<Longrightarrow> list_all (\<lambda>t. portProperty_of t \<noteq> None) ps \<longleftrightarrow>
      list_all (\<lambda>e. portProperty_of (mc_key e) \<noteq> None) ms"
    by (auto simp: list_all_iff)
  show ?thesis
    using validateMetadata_ok [of 0 ms ps k] keys
    by (auto simp: validateProperties_def okR_unit okR_bind validateTokens_ok wf_properties_def
        list_all_iff dest: arg_cong [where f = length])
qed

lemma parseInt32_range:
  "parseInt32 w v (Some old) = (True, r) \<Longrightarrow> \<exists>n. r = Some n \<and> in_int32 n"
  by (auto simp: parseInt32_def in_int32_def split: if_splits option.splits)

lemma readInt32_range:
  assumes "readInt32Field w b kvp key (Some old) True = Inr r"
  shows "in_int32 (the r)"
proof -
  from assms obtain v where
    "(case parseInt32 w v (Some old) of (True, r) \<Rightarrow> Inr r
      | (False, r) \<Rightarrow> Inl (''failed to parse CompositeInput HFP integer field: '' @ key @ '' value='' @ v)) = Inr r"
    by (auto simp: readInt32Field_def bindR_Inr_iff)
  then have "parseInt32 w v (Some old) = (True, r)"
    by (cases "parseInt32 w v (Some old)") (auto split: bool.splits)
  then show ?thesis using parseInt32_range by fastforce
qed

lemma readString_nonempty:
  "readStringField b kvp key (Some old) True = Inr v \<Longrightarrow> v \<noteq> []"
  by (auto simp: readStringField_def Let_def split: if_splits prod.splits)

lemma readPort_wf:
  assumes "readPort w b kvp i (Some q) = Inr p"
  shows "wf_port p"
  using assms
  by (auto simp: readPort_def Let_def bindR_Inr_iff validateProperties_ok wf_port_def
      dest: readString_nonempty readInt32_range split: if_splits)

lemma readPorts_wf:
  "readPorts w b kvp i n ids = Inr ps \<Longrightarrow>
   list_all wf_port ps \<and> distinct (map cp_id ps) \<and> set (map cp_id ps) \<inter> set ids = {} \<and> length ps = n"
proof (induction n arbitrary: i ids ps)
  case (Suc n)
  then obtain p qs where p: "readPort w b kvp i (Some default_port_config) = Inr p"
      "cp_id p \<notin> set ids" "readPorts w b kvp (Suc i) n (cp_id p # ids) = Inr qs" "ps = p # qs"
    by (auto simp: bindR_Inr_iff split: if_splits)
  from Suc.IH [OF p(3)] readPort_wf [OF p(1)] p(2,4) show ?case by auto
qed simp

lemma readPlatform_wf:
  assumes "readPlatformCapabilities w b kvp (Some c) = Inr c'"
  shows "hc_interfaceVersion c' = hc_interfaceVersion c" and "hc_ports c' = hc_ports c"
    and "hc_halVersion c' \<noteq> []" and "1 \<le> hc_maxPorts c'" and "in_int32 (hc_maxPorts c')"
    and "1 \<le> hc_maximumConcurrentStartedPorts c'" and "in_int32 (hc_maximumConcurrentStartedPorts c')"
    and "wf_properties (hc_supportedProperties c') (hc_propertyMetadata c')"
  using assms
  by (auto simp: readPlatformCapabilities_def Let_def bindR_Inr_iff validateProperties_ok
      dest: readString_nonempty readInt32_range split: if_splits)

lemma readProfile_wf:
  assumes "readProfile w b kvp = Inr c"
  shows "wf_config c"
proof -
  from assms obtain v ps where
      v: "readStringField b kvp kInterfaceVersionKey (Some (hc_interfaceVersion default_hfp_config)) True = Inr v"
    and n: "unat (ut_kvp_getListCount kvp kPortsKey) \<noteq> 0"
    and ps: "readPorts w b kvp 0 (unat (ut_kvp_getListCount kvp kPortsKey)) [] = Inr ps"
    and c: "readPlatformCapabilities w b kvp
      (Some (default_hfp_config\<lparr>hc_interfaceVersion := v, hc_ports := ps\<rparr>)) = Inr c"
    by (auto simp: readProfile_def Let_def bindR_Inr_iff split: if_splits)
  have "ps \<noteq> []" using readPorts_wf [OF ps] n by auto
  with readPlatform_wf [OF c] readPorts_wf [OF ps] readString_nonempty [OF v] show ?thesis
    by (simp add: wf_config_def)
qed


lemma parseConfig_sound:
  "case parseConfig w b openKvp configFile outError of
     (ok, c, err) \<Rightarrow>
       if ok then wf_config c \<and> err = map_option (\<lambda>_. []) outError else c = default_hfp_config"
  by (auto simp: parseConfig_def Let_def dest: readProfile_wf split: option.split sum.split)

section \<open>Profiles that represent a configuration\<close>

text \<open>
  \<open>represents b kvp c\<close>: the opened profile holds the fields of the configuration \<open>c\<close>, printed
  in the usual way, under the keys of the HFP format.
\<close>

definition has_field :: "nat \<Rightarrow> kvp \<Rightarrow> string \<Rightarrow> string \<Rightarrow> bool" where
  "has_field b kvp key v \<longleftrightarrow>
     ut_kvp_fieldPresent kvp key \<and> ut_kvp_getStringField kvp key b = (UT_KVP_STATUS_SUCCESS, v)"

definition show_bool :: "bool \<Rightarrow> string" where
  "show_bool v = (if v then ''true'' else ''false'')"

definition has_list :: "kvp \<Rightarrow> string \<Rightarrow> ('a \<Rightarrow> string \<Rightarrow> bool) \<Rightarrow> 'a list \<Rightarrow> bool" where
  "has_list kvp key has_item xs \<longleftrightarrow>
     ut_kvp_fieldPresent kvp key \<and> unat (ut_kvp_getListCount kvp key) = length xs \<and>
     list_all (\<lambda>(i, x). has_item x (key @ ''.'' @ show_nat i)) (List.enumerate 0 xs)"

definition has_entry :: "nat \<Rightarrow> kvp \<Rightarrow> property_metadata_config \<Rightarrow> string \<Rightarrow> bool" where
  "has_entry b kvp e key \<longleftrightarrow>
     has_field b kvp (key @ ''.key'') (mc_key e) \<and>
     has_field b kvp (key @ ''.type'') (mc_type e) \<and>
     has_field b kvp (key @ ''.readOnly'') (show_bool (mc_readOnly e)) \<and>
     has_field b kvp (key @ ''.isMetric'') (show_bool (mc_isMetric e)) \<and>
     has_field b kvp (key @ ''.description'') (mc_description e)"

definition has_port :: "nat \<Rightarrow> kvp \<Rightarrow> port_config \<Rightarrow> string \<Rightarrow> bool" where
  "has_port b kvp p key \<longleftrightarrow>
     has_field b kvp (key @ ''.id'') (show_int (cp_id p)) \<and>
     has_field b kvp (key @ ''.name'') (cp_name p) \<and>
     has_field b kvp (key @ ''.description'') (cp_description p) \<and>
     has_list kvp (key @ ''.supportedProperties'') (\<lambda>v k. has_field b kvp k v)
       (cp_supportedProperties p) \<and>
     has_list kvp (key @ ''.propertyMetadata'') (has_entry b kvp) (cp_propertyMetadata p)"

definition represents :: "nat \<Rightarrow> kvp \<Rightarrow> hfp_config \<Rightarrow> bool" where
  "represents b kvp c \<longleftrightarrow>
     ut_kvp_fieldPresent kvp kCompositeInputRoot \<and>
     has_field b kvp kInterfaceVersionKey (hc_interfaceVersion c) \<and>
     has_list kvp kPortsKey (has_port b kvp) (hc_ports c) \<and>
     ut_kvp_fieldPresent kvp kPlatformCapabilitiesKey \<and>
     has_field b kvp (kPlatformCapabilitiesKey @ ''.halVersion'') (hc_halVersion c) \<and>
     has_field b kvp (kPlatformCapabilitiesKey @ ''.maxPorts'') (show_int (hc_maxPorts c)) \<and>
     has_field b kvp (kPlatformCapabilitiesKey @ ''.maximumConcurrentStartedPorts'')
       (show_int (hc_maximumConcurrentStartedPorts c)) \<and>
     has_list kvp (kPlatformCapabilitiesKey @ ''.supportedProperties'') (\<lambda>v k. has_field b kvp k v)
       (hc_supportedProperties c) \<and>
     has_list kvp (kPlatformCapabilitiesKey @ ''.propertyMetadata'') (has_entry b kvp)
       (hc_propertyMetadata c) \<and>
     has_field b kvp (kPlatformCapabilitiesKey @ ''.features.macrovisionDetectionSupported'')
       (show_bool (hc_macrovisionDetectionSupported c))"

lemma show_int_not_Nil [simp]: "show_int i \<noteq> []"
  by (simp add: show_int_def)

lemma parse_show_int:
  assumes "32 \<le> w" and "in_int32 i"
  shows "parseInt32 w (show_int i) (Some old) = (True, Some i)"
proof -
  have "(2::int) ^ 31 \<le> 2 ^ (w - 1)" using assms(1) by (intro power_increasing) simp_all
  with assms(2) have "saturate w i = i"
    by (intro saturate_inside) (auto simp: in_int32_def)
  then have "strtol w 0 (show_int i) = Some (i, False, [])"
    by (simp add: strtol_show_int)
  with assms(2) show ?thesis by (simp add: parseInt32_def in_int32_def)
qed

lemma parse_show_bool [simp]:
  "parseBool (show_bool v) (Some old) = (True, Some v)" "show_bool v \<noteq> []"
  by (cases v; simp add: show_bool_def parseBool_def)+

text \<open>Reading a field that is present: the rules by which a represented profile is read.\<close>

lemma read_field:
  "has_field b kvp key v \<Longrightarrow>
   readStringField b kvp key (Some old) True =
     (if v = [] then Inl (''required CompositeInput HFP field is empty: '' @ key) else Inr v)"
  by (simp add: readStringField_def has_field_def fieldPresent_def)

lemma read_int:
  "has_field b kvp key (show_int i) \<Longrightarrow> 32 \<le> w \<Longrightarrow> in_int32 i \<Longrightarrow>
   readInt32Field w b kvp key (Some old) True = Inr (Some i)"
  by (simp add: readInt32Field_def read_field parse_show_int)

lemma read_bool:
  "has_field b kvp key (show_bool v) \<Longrightarrow> readBoolField b kvp key (Some old) True = Inr (Some v)"
  by (simp add: readBoolField_def read_field)

lemma read_items:
  "list_all (\<lambda>(j, v). has_field b kvp (key @ ''.'' @ show_nat j) v) (List.enumerate i vs) \<Longrightarrow>
   [] \<notin> set vs \<Longrightarrow> readItems b kvp key i (length vs) = Inr vs"
proof (induction vs arbitrary: i)
  case (Cons v vs)
  then have f: "has_field b kvp (key @ ''.'' @ show_nat i) v" and "v \<noteq> []" by auto
  with read_field [OF f, of "[]"] Cons show ?case by simp
qed simp

lemma read_list:
  "has_list kvp key (\<lambda>v k. has_field b kvp k v) vs \<Longrightarrow> [] \<notin> set vs \<Longrightarrow>
   readStringList b kvp key (Some old) True = Inr vs"
  by (simp add: readStringList_def has_list_def fieldPresent_def read_items)

definition named_entry :: "property_metadata_config \<Rightarrow> bool" where
  "named_entry e \<longleftrightarrow> mc_key e \<noteq> [] \<and> mc_type e \<noteq> [] \<and> mc_description e \<noteq> []"

lemma read_entry:
  assumes "has_entry b kvp e key" and "named_entry e"
  shows "readEntry b kvp (key @ ''.'') = Inr e"
proof -
  have k: "has_field b kvp (key @ ''.key'') (mc_key e)"
    and t: "has_field b kvp (key @ ''.type'') (mc_type e)"
    and r: "has_field b kvp (key @ ''.readOnly'') (show_bool (mc_readOnly e))"
    and m: "has_field b kvp (key @ ''.isMetric'') (show_bool (mc_isMetric e))"
    and d: "has_field b kvp (key @ ''.description'') (mc_description e)"
    using assms(1) by (simp_all add: has_entry_def)
  show ?thesis
    using assms(2)
    by (simp add: readEntry_def named_entry_def read_field [OF k] read_field [OF t] read_bool [OF r]
        read_bool [OF m] read_field [OF d])
qed

lemma read_entries:
  "list_all (\<lambda>(j, e). has_entry b kvp e (key @ ''.'' @ show_nat j)) (List.enumerate i es) \<Longrightarrow>
   list_all named_entry es \<Longrightarrow> readEntries b kvp key i (length es) = Inr es"
proof (induction es arbitrary: i)
  case (Cons e es)
  then show ?case
    using read_entry [of b kvp e "key @ ''.'' @ show_nat i"] by simp
qed simp

lemma no_empty_tokens: "portProperty_of [] = None" "propertyType_of [] = None"
  by code_simp+

lemma wf_properties_nonempty:
  assumes "wf_properties ps ms"
  shows "[] \<notin> set ps" and "list_all named_entry ms"
proof -
  have ps: "list_all (\<lambda>t. portProperty_of t \<noteq> None) ps" and keys: "map mc_key ms = ps"
    and ms: "list_all (\<lambda>e. propertyType_of (mc_type e) \<noteq> None \<and> mc_description e \<noteq> []) ms"
    using assms by (simp_all add: wf_properties_def)
  from ps no_empty_tokens show nil: "[] \<notin> set ps" by (auto simp: list_all_iff)
  have "mc_key e \<noteq> []" if "e \<in> set ms" for e
  proof
    assume "mc_key e = []"
    with that have "[] \<in> set (map mc_key ms)" by force
    with nil keys show False by simp
  qed
  with ms no_empty_tokens show "list_all named_entry ms"
    by (auto simp: list_all_iff named_entry_def)
qed

lemma read_metadata:
  "has_list kvp key (has_entry b kvp) ms \<Longrightarrow> list_all named_entry ms \<Longrightarrow>
   readPropertyMetadata b kvp key (Some old) = Inr ms"
  by (simp add: readPropertyMetadata_def has_list_def fieldPresent_def read_entries)

lemma read_has_port:
  assumes "has_port b kvp p (kPortsKey @ ''.'' @ show_nat i)" and "wf_port p" and "32 \<le> w"
  shows "readPort w b kvp i (Some old) = Inr p"
proof -
  let ?k = "kPortsKey @ ''.'' @ show_nat i"
  have wf: "wf_properties (cp_supportedProperties p) (cp_propertyMetadata p)" and id: "in_int32 (cp_id p)"
    using assms(2) by (simp_all add: wf_port_def)
  have "has_field b kvp (?k @ ''.id'') (show_int (cp_id p))"
    and n: "has_field b kvp (?k @ ''.name'') (cp_name p)"
    and d: "has_field b kvp (?k @ ''.description'') (cp_description p)"
    and "has_list kvp (?k @ ''.supportedProperties'') (\<lambda>v k. has_field b kvp k v) (cp_supportedProperties p)"
    and "has_list kvp (?k @ ''.propertyMetadata'') (has_entry b kvp) (cp_propertyMetadata p)"
    using assms(1) unfolding has_port_def by blast+
  note reads = read_int [OF this(1) assms(3) id] read_field [OF n] read_field [OF d]
    read_list [OF this(4) wf_properties_nonempty(1) [OF wf]]
    read_metadata [OF this(5) wf_properties_nonempty(2) [OF wf]]
  have "validateProperties (cp_supportedProperties p) (cp_propertyMetadata p) k = Inr ()" for k
    using wf validateProperties_ok by simp
  with assms(2) show ?thesis
    using reads by (simp add: readPort_def Let_def wf_port_def)
qed

lemma read_ports:
  "list_all (\<lambda>(j, p). has_port b kvp p (kPortsKey @ ''.'' @ show_nat j)) (List.enumerate i ps) \<Longrightarrow>
   list_all wf_port ps \<Longrightarrow> distinct (map cp_id ps) \<Longrightarrow> set (map cp_id ps) \<inter> set ids = {} \<Longrightarrow>
   32 \<le> w \<Longrightarrow> readPorts w b kvp i (length ps) ids = Inr ps"
proof (induction ps arbitrary: i ids)
  case (Cons p ps)
  then have "readPort w b kvp i (Some default_port_config) = Inr p"
    by (intro read_has_port) simp_all
  moreover have "readPorts w b kvp (Suc i) (length ps) (cp_id p # ids) = Inr ps"
    using Cons.prems by (intro Cons.IH) auto
  ultimately show ?case using Cons.prems by simp
qed simp

lemma read_platform:
  assumes "represents b kvp c" and "wf_config c" and "32 \<le> w"
  shows "readPlatformCapabilities w b kvp
    (Some (default_hfp_config\<lparr>hc_interfaceVersion := hc_interfaceVersion c, hc_ports := hc_ports c\<rparr>)) = Inr c"
proof -
  let ?k = kPlatformCapabilitiesKey
  have wf: "wf_properties (hc_supportedProperties c) (hc_propertyMetadata c)"
    and ints: "in_int32 (hc_maxPorts c)" "in_int32 (hc_maximumConcurrentStartedPorts c)"
    using assms(2) by (simp_all add: wf_config_def)
  have h: "has_field b kvp (?k @ ''.halVersion'') (hc_halVersion c)"
    and "has_field b kvp (?k @ ''.maxPorts'') (show_int (hc_maxPorts c))"
    and "has_field b kvp (?k @ ''.maximumConcurrentStartedPorts'')
      (show_int (hc_maximumConcurrentStartedPorts c))"
    and "has_list kvp (?k @ ''.supportedProperties'') (\<lambda>v k. has_field b kvp k v) (hc_supportedProperties c)"
    and "has_list kvp (?k @ ''.propertyMetadata'') (has_entry b kvp) (hc_propertyMetadata c)"
    and "has_field b kvp (?k @ ''.features.macrovisionDetectionSupported'')
      (show_bool (hc_macrovisionDetectionSupported c))"
    and p: "fieldPresent (Some kvp) ?k"
    using assms(1) unfolding represents_def fieldPresent_def by simp_all
  note reads = read_field [OF h] read_int [OF this(2) assms(3) ints(1)]
    read_int [OF this(3) assms(3) ints(2)]
    read_list [OF this(4) wf_properties_nonempty(1) [OF wf]]
    read_metadata [OF this(5) wf_properties_nonempty(2) [OF wf]] read_bool [OF this(6)]
  have "validateProperties (hc_supportedProperties c) (hc_propertyMetadata c) k = Inr ()" for k
    using wf validateProperties_ok by simp
  with assms(2) p show ?thesis
    using reads by (simp add: readPlatformCapabilities_def Let_def wf_config_def default_hfp_config_def)
qed

lemma read_represented:
  assumes "represents b kvp c" and "wf_config c" and "32 \<le> w"
  shows "readProfile w b kvp = Inr c"
proof -
  have v: "has_field b kvp kInterfaceVersionKey (hc_interfaceVersion c)"
    and n: "unat (ut_kvp_getListCount kvp kPortsKey) = length (hc_ports c)"
    and p: "fieldPresent (Some kvp) kCompositeInputRoot" "fieldPresent (Some kvp) kPortsKey"
    using assms(1) by (simp_all add: represents_def has_list_def fieldPresent_def)
  have "readPorts w b kvp 0 (length (hc_ports c)) [] = Inr (hc_ports c)"
    using assms by (intro read_ports) (simp_all add: represents_def has_list_def wf_config_def)
  with read_platform [OF assms] assms(2) show ?thesis
    by (simp add: readProfile_def Let_def wf_config_def read_field [OF v] n p)
qed


section \<open>A concrete profile\<close>

definition table_kvp :: "(string \<times> string) list \<Rightarrow> (string \<times> uint32) list \<Rightarrow> kvp" where
  "table_kvp texts counts =
     \<lparr>ut_kvp_fieldPresent =
        (\<lambda>k. map_of texts k \<noteq> None \<or> map_of counts k \<noteq> None \<or>
             k = kCompositeInputRoot \<or> k = kPlatformCapabilitiesKey),
      ut_kvp_getBoolField = (\<lambda>k. map_of texts k = Some ''true''),
      ut_kvp_getUInt32Field = (\<lambda>k. 0),
      ut_kvp_getUInt64Field = (\<lambda>k. 0),
      ut_kvp_getFloatField = (\<lambda>k. FFin 0 0),
      ut_kvp_getStringField =
        (\<lambda>k size. case map_of texts k of
                    Some v \<Rightarrow> (UT_KVP_STATUS_SUCCESS, v) | None \<Rightarrow> (UT_KVP_STATUS_FAILURE, [])),
      ut_kvp_getListCount = (\<lambda>k. case map_of counts k of Some n \<Rightarrow> n | None \<Rightarrow> 0)\<rparr>"

definition demo_metadata :: property_metadata_config where
  "demo_metadata = \<lparr>mc_key = ''SIGNAL_QUALITY'', mc_type = ''INTEGER'', mc_readOnly = True,
     mc_isMetric = False, mc_description = ''quality''\<rparr>"

definition demo_config :: hfp_config where
  "demo_config =
     \<lparr>hc_interfaceVersion = ''1'',
      hc_ports = [\<lparr>cp_id = 0, cp_name = ''CVBS1'', cp_description = ''first'',
                   cp_supportedProperties = [''SIGNAL_QUALITY''], cp_propertyMetadata = [demo_metadata]\<rparr>],
      hc_halVersion = ''0.1'', hc_maxPorts = 1, hc_maximumConcurrentStartedPorts = 1,
      hc_supportedProperties = [''SIGNAL_QUALITY''], hc_propertyMetadata = [demo_metadata],
      hc_macrovisionDetectionSupported = False\<rparr>"

definition demo_fields :: "(string \<times> string) list" where
  "demo_fields =
     [(''compositeinput.interfaceVersion'', ''1''),
      (''compositeinput.ports.0.id'', ''0''),
      (''compositeinput.ports.0.name'', ''CVBS1''),
      (''compositeinput.ports.0.description'', ''first''),
      (''compositeinput.ports.0.supportedProperties.0'', ''SIGNAL_QUALITY''),
      (''compositeinput.ports.0.propertyMetadata.0.key'', ''SIGNAL_QUALITY''),
      (''compositeinput.ports.0.propertyMetadata.0.type'', ''INTEGER''),
      (''compositeinput.ports.0.propertyMetadata.0.readOnly'', ''true''),
      (''compositeinput.ports.0.propertyMetadata.0.isMetric'', ''false''),
      (''compositeinput.ports.0.propertyMetadata.0.description'', ''quality''),
      (''compositeinput.platformCapabilities.halVersion'', ''0.1''),
      (''compositeinput.platformCapabilities.maxPorts'', ''1''),
      (''compositeinput.platformCapabilities.maximumConcurrentStartedPorts'', ''1''),
      (''compositeinput.platformCapabilities.supportedProperties.0'', ''SIGNAL_QUALITY''),
      (''compositeinput.platformCapabilities.propertyMetadata.0.key'', ''SIGNAL_QUALITY''),
      (''compositeinput.platformCapabilities.propertyMetadata.0.type'', ''INTEGER''),
      (''compositeinput.platformCapabilities.propertyMetadata.0.readOnly'', ''true''),
      (''compositeinput.platformCapabilities.propertyMetadata.0.isMetric'', ''false''),
      (''compositeinput.platformCapabilities.propertyMetadata.0.description'', ''quality''),
      (''compositeinput.platformCapabilities.features.macrovisionDetectionSupported'', ''false'')]"

definition demo_lists :: "(string \<times> uint32) list" where
  "demo_lists =
     [(''compositeinput.ports'', 1),
      (''compositeinput.ports.0.supportedProperties'', 1),
      (''compositeinput.ports.0.propertyMetadata'', 1),
      (''compositeinput.platformCapabilities.supportedProperties'', 1),
      (''compositeinput.platformCapabilities.propertyMetadata'', 1)]"

lemma demo_represents: "represents 256 (table_kvp demo_fields demo_lists) demo_config"
  by code_simp

lemma demo_wf: "wf_config demo_config"
  by code_simp

section \<open>Properties\<close>

text \<open>
  C19: the parser is sound. When it succeeds the profile is well formed: at least one port,
  nonnegative unique IDs, nonempty names, limits of at least one, and at every level property
  tokens that are known and unique, with metadata in the same order, known types and
  nonempty descriptions; the error output is cleared. When it fails the configuration is the
  cleared one.
\<close>

theorem parse_success_is_wellformed:
  "case parseConfig longBits bufSize openKvp configFile outError of
     (ok, c, err) \<Rightarrow>
       if ok then wf_config c \<and> err = map_option (\<lambda>_. []) outError else c = default_hfp_config"
  by (rule parseConfig_sound)

text \<open>
  The parser is complete. A profile that represents a well-formed configuration, every
  field printed in the usual way, is parsed to exactly that configuration, whatever the
  width of \<open>long\<close> from 32 bits on.
\<close>

lemma parse_accepts_represented:
  assumes "represents bufSize kvp c" and "wf_config c" and "32 \<le> longBits"
    and "path \<noteq> []" and "openKvp path = Some kvp"
  shows "parseConfig longBits bufSize openKvp (Some path) outError =
    (True, c, map_option (\<lambda>_. []) outError)"
  using assms read_represented by (simp add: parseConfig_def kvpCreateInstance_def)

text \<open>
  A leading zero selects base eight.
\<close>

lemma parseInt32_octal: "parseInt32 32 ''010'' (Some 0) = (True, Some 8)"
  by code_simp

text \<open>
  C36: integer fields neither overflow nor wrap. The decimal text of any integer whatever, also of
  one beyond \<open>long\<close>, is accepted exactly when the integer fits an \<open>int32_t\<close>, and then as that
  integer; no text at all is accepted with a value out of that range, and a refused one leaves the
  output as it was. \<open>long\<close> may have any width from 32 bits on.
\<close>

theorem integer_fields_fit:
  assumes "32 \<le> longBits"
  shows "parseInt32 longBits (show_int i) (Some old) =
      (if - (2 ^ 31) \<le> i \<and> i \<le> 2 ^ 31 - 1 then (True, Some i) else (False, Some old)) \<and>
    (case parseInt32 longBits v (Some old) of
       (ok, out) \<Rightarrow> \<exists>n. out = Some n \<and> (if ok then - (2 ^ 31) \<le> n \<and> n \<le> 2 ^ 31 - 1 else n = old))"
proof
  have "parseInt32 longBits (show_int i) (Some old) = (False, Some old)" if "\<not> in_int32 i"
    using that strtol_show_int [of 0 longBits i]
    by (cases "saturate longBits i = i") (auto simp: parseInt32_def in_int32_def)
  then show "parseInt32 longBits (show_int i) (Some old) =
      (if - (2 ^ 31) \<le> i \<and> i \<le> 2 ^ 31 - 1 then (True, Some i) else (False, Some old))"
    using parse_show_int [OF assms, of i old] by (auto simp: in_int32_def)
  show "case parseInt32 longBits v (Some old) of
       (ok, out) \<Rightarrow> \<exists>n. out = Some n \<and> (if ok then - (2 ^ 31) \<le> n \<and> n \<le> 2 ^ 31 - 1 else n = old)"
    by (auto simp: parseInt32_def split: option.split)
qed

theorem integer_fields_fit_witness:
  "parseInt32 64 (show_int 2147483648) (Some 5) = (False, Some 5) \<and>
   parseInt32 64 (show_int (- 2147483648)) (Some 5) = (True, Some (- 2147483648))"
  using integer_fields_fit [of 64 2147483648 5 "[]"] integer_fields_fit [of 64 "- 2147483648" 5 "[]"] by simp

text \<open>
  C37: the two validation loops decide exactly the declared rule: tokens known and distinct,
  metadata keys equal to the token list in order, types known, descriptions nonempty.
\<close>

theorem validateProperties_decides:
  "validateProperties properties metadata keyPrefix = Inr () \<longleftrightarrow>
     list_all (\<lambda>t. portProperty_of t \<noteq> None) properties \<and> distinct properties \<and>
     map mc_key metadata = properties \<and>
     list_all (\<lambda>e. propertyType_of (mc_type e) \<noteq> None \<and> mc_description e \<noteq> []) metadata"
  using validateProperties_ok by (simp only: wf_properties_def)

end
