(* ===== verification/Ut_Controller.thy ===== *)
theory Ut_Controller
  imports Parse_Config
begin

text \<open>
  \<open>vcomponent_CompositeInputUtController.cpp\<close>: the facade of the UT control plane. It owns
  the control-plane instance, the loaded profile and the queue between the control-plane
  thread (which pushes) and the worker of the manager (which takes). The control plane of
  ut-core is a parameter, and the calls made to it are recorded.
\<close>

section \<open>State\<close>

text \<open>A message: the key, the serialized payload, and the registered user data.\<close>

type_synonym ut_message = "string \<times> string \<times> nat sp"

record ut_controller =
  uc_controlPlaneInstance :: "nat sp"
  uc_userData :: "nat sp"
  uc_hfpYamlPath :: string
  uc_hfpConfig :: hfp_config
  uc_messageQueue :: "ut_message list"

definition initial_ut_controller :: ut_controller where
  "initial_ut_controller =
     \<lparr>uc_controlPlaneInstance = None, uc_userData = None, uc_hfpYamlPath = [],
      uc_hfpConfig = default_hfp_config, uc_messageQueue = []\<rparr>"

datatype ut_effect =
    ControlPlaneInit uint16
  | RegisterCallback nat string
  | ControlPlaneStart nat
  | ControlPlaneExit nat

text \<open>
  \<open>ut_init\<close> is \<open>UT_ControlPlane_Init\<close>, \<open>ut_registerOk\<close> whether
  \<open>UT_ControlPlane_RegisterCallbackOnMessage\<close> answers \<open>UT_CONTROL_PLANE_STATUS_OK\<close>.
\<close>

record ut_env =
  ut_init :: "uint16 \<Rightarrow> nat sp"
  ut_registerOk :: "nat \<Rightarrow> string \<Rightarrow> bool"

definition kControlPlaneComponentKey :: string where
  "kControlPlaneComponentKey = ''compositeinput''"

section \<open>Life of the control plane\<close>

definition ut_controller_init ::
  "ut_env \<Rightarrow> uint16 \<Rightarrow> nat sp \<Rightarrow> ut_controller \<Rightarrow> bool \<times> ut_controller \<times> ut_effect list" where
  "ut_controller_init env port userData c =
     (if uc_controlPlaneInstance c \<noteq> None then (True, c, [])
      else case ut_init env port of
             None \<Rightarrow> (False, c\<lparr>uc_userData := None, uc_controlPlaneInstance := None\<rparr>,
                      [ControlPlaneInit port])
           | Some h \<Rightarrow>
               if ut_registerOk env h kControlPlaneComponentKey
               then (True, c\<lparr>uc_userData := userData, uc_controlPlaneInstance := Some h\<rparr>,
                     [ControlPlaneInit port, RegisterCallback h kControlPlaneComponentKey,
                      ControlPlaneStart h])
               else (False, c\<lparr>uc_userData := None, uc_controlPlaneInstance := None\<rparr>,
                     [ControlPlaneInit port, RegisterCallback h kControlPlaneComponentKey,
                      ControlPlaneExit h]))"

definition ut_controller_shutdown :: "ut_controller \<Rightarrow> ut_controller \<times> ut_effect list" where
  "ut_controller_shutdown c =
     (c\<lparr>uc_controlPlaneInstance := None, uc_userData := None, uc_messageQueue := []\<rparr>,
      case uc_controlPlaneInstance c of None \<Rightarrow> [] | Some h \<Rightarrow> [ControlPlaneExit h])"

definition isRunning :: "ut_controller \<Rightarrow> bool" where
  "isRunning c \<longleftrightarrow> uc_controlPlaneInstance c \<noteq> None"

section \<open>The message queue\<close>

text \<open>
  The KVP instance of a message is null or yields its serialized document
  (\<open>ut_kvp_getData\<close>), which may be null too.
\<close>

definition make_message :: "string sp \<Rightarrow> string sp sp \<Rightarrow> ut_controller \<Rightarrow> ut_message" where
  "make_message key instance c =
     (let messageKey = (case key of Some k \<Rightarrow> k | None \<Rightarrow> []);
          rawMessage = (case instance of Some data \<Rightarrow> data | None \<Rightarrow> None);
          messagePayload = (case rawMessage of Some m \<Rightarrow> m | None \<Rightarrow> [])
      in (messageKey, messagePayload, uc_userData c))"

definition pushMessage :: "string sp \<Rightarrow> string sp sp \<Rightarrow> ut_controller \<Rightarrow> ut_controller" where
  "pushMessage key instance c =
     c\<lparr>uc_messageQueue := uc_messageQueue c @ [make_message key instance c]\<rparr>"

definition messageCallback ::
  "string sp \<Rightarrow> string sp sp \<Rightarrow> ut_controller sp \<Rightarrow> ut_controller sp" where
  "messageCallback key instance userData =
     (case userData of None \<Rightarrow> None | Some self \<Rightarrow> Some (pushMessage key instance self))"

definition getMessage :: "ut_controller \<Rightarrow> ut_message option \<times> ut_controller" where
  "getMessage c =
     (case uc_messageQueue c of
        [] \<Rightarrow> (None, c)
      | item # rest \<Rightarrow> (Some item, c\<lparr>uc_messageQueue := rest\<rparr>))"

text \<open>
  What producer and consumer rely on: a queue to which an item is appended and from which
  the oldest is taken. The item may be built with data of the queue's owner, which neither
  operation changes.
\<close>

locale fifo =
  fixes contents :: "'q \<Rightarrow> 'm list"
    and item :: "'x \<Rightarrow> 'q \<Rightarrow> 'm"
    and put :: "'x \<Rightarrow> 'q \<Rightarrow> 'q"
    and get :: "'q \<Rightarrow> 'm option \<times> 'q"
  assumes put_contents: "contents (put x q) = contents q @ [item x q]"
    and item_put: "item x (put y q) = item x q"
    and item_get: "item x (snd (get q)) = item x q"
    and get_empty: "contents q = [] \<Longrightarrow> get q = (None, q)"
    and get_first: "contents q \<noteq> [] \<Longrightarrow>
      fst (get q) = Some (hd (contents q)) \<and> contents (snd (get q)) = tl (contents q)"
begin

fun drain :: "nat \<Rightarrow> 'q \<Rightarrow> 'm list \<times> 'q" where
  "drain 0 q = ([], q)"
| "drain (Suc n) q =
     (case get q of
        (None, q') \<Rightarrow> ([], q')
      | (Some m, q') \<Rightarrow> (let (ms, q'') = drain n q' in (m # ms, q'')))"

lemma drain_take:
  "fst (drain n q) = take n (contents q) \<and> contents (snd (drain n q)) = drop n (contents q)"
proof (induction n arbitrary: q)
  case (Suc n)
  show ?case
  proof (cases "contents q")
    case Nil
    then show ?thesis by (simp add: get_empty)
  next
    case (Cons m ms)
    then obtain q' where "get q = (Some m, q')" "contents q' = ms"
      using get_first [of q] by (cases "get q") auto
    with Suc [of q'] Cons show ?thesis by (simp add: case_prod_unfold Let_def)
  qed
qed simp

lemma puts_contents: "contents (fold put xs q) = contents q @ map (\<lambda>x. item x q) xs"
  by (induction xs arbitrary: q) (simp_all add: put_contents item_put)

lemma fifo_order: "fst (drain n (fold put xs q)) = take n (contents q @ map (\<lambda>x. item x q) xs)"
  by (simp add: drain_take puts_contents)

end

interpretation ut_queue: fifo
  uc_messageQueue "\<lambda>(key, instance). make_message key instance"
  "\<lambda>(key, instance). pushMessage key instance" getMessage
  by unfold_locales (auto simp: pushMessage_def make_message_def getMessage_def split: list.split)

section \<open>Configuration and inventory\<close>

definition loadConfiguration ::
  "nat \<Rightarrow> nat \<Rightarrow> (string \<Rightarrow> kvp sp) \<Rightarrow> string \<Rightarrow> string out \<Rightarrow> ut_controller \<Rightarrow>
   bool \<times> string out \<times> ut_controller" where
  "loadConfiguration longBits bufSize openKvp hfpYamlPath outError c =
     (let (ok, cfg, err) = loadHfpConfig longBits bufSize openKvp hfpYamlPath
            (Some default_hfp_config) (map_option (\<lambda>_. []) outError)
      in if \<not> ok
         then (False, err, c\<lparr>uc_hfpYamlPath := [], uc_hfpConfig := default_hfp_config\<rparr>)
         else (True, err, c\<lparr>uc_hfpYamlPath := hfpYamlPath, uc_hfpConfig := the cfg\<rparr>))"

definition newline :: string where "newline = [CHR 0x0A]"

fun appendTokenList :: "nat \<Rightarrow> string list \<Rightarrow> string" where
  "appendTokenList index [] = []"
| "appendTokenList index (token # tokens) =
     (if index \<noteq> 0 then '','' else []) @ token @ appendTokenList (Suc index) tokens"

definition inventoryEntry :: "string \<Rightarrow> property_metadata_config \<Rightarrow> string" where
  "inventoryEntry prefix entry =
     prefix @ ''.propertyMetadata.'' @ mc_key entry @ ''.type='' @ mc_type entry @
     '',readOnly='' @ (if mc_readOnly entry then ''true'' else ''false'') @
     '',isMetric='' @ (if mc_isMetric entry then ''true'' else ''false'') @
     '',description='' @ mc_description entry @ newline"

definition inventoryMetadata :: "string \<Rightarrow> property_metadata_config list \<Rightarrow> string" where
  "inventoryMetadata prefix entries =
     prefix @ ''.propertyMetadataCount='' @ show_nat (length entries) @ newline @
     concat (map (inventoryEntry prefix) entries)"

definition inventoryPort :: "port_config \<Rightarrow> string" where
  "inventoryPort p =
     (let prefix = ''port.'' @ show_int (cp_id p)
      in prefix @ ''.name='' @ cp_name p @ newline @
         prefix @ ''.description='' @ cp_description p @ newline @
         prefix @ ''.supportedProperties='' @ appendTokenList 0 (cp_supportedProperties p) @ newline @
         inventoryMetadata prefix (cp_propertyMetadata p))"

definition buildInventory ::
  "file_system \<Rightarrow> string out \<Rightarrow> string out \<Rightarrow> ut_controller \<Rightarrow>
   bool \<times> string out \<times> string out" where
  "buildInventory files outInventory outError c =
     (case outInventory of
        None \<Rightarrow> (False, None, map_option (\<lambda>_. ''outInventory is null'') outError)
      | Some _ \<Rightarrow>
          (let cfg = uc_hfpConfig c;
               inv =
                 ''CompositeInput inventory'' @ newline @
                 ''hfpYamlPath='' @ uc_hfpYamlPath c @ newline @
                 ''interfaceVersion='' @ hc_interfaceVersion cfg @ newline @
                 ''halVersion='' @ hc_halVersion cfg @ newline @
                 ''portCount='' @ show_nat (length (hc_ports cfg)) @ newline @
                 ''maxPorts='' @ show_int (hc_maxPorts cfg) @ newline @
                 ''maximumConcurrentStartedPorts='' @
                   show_int (hc_maximumConcurrentStartedPorts cfg) @ newline @
                 ''macrovisionDetectionSupported='' @
                   (if hc_macrovisionDetectionSupported cfg then ''true'' else ''false'') @ newline @
                 ''platform.supportedProperties='' @ appendTokenList 0 (hc_supportedProperties cfg) @
                   newline @
                 inventoryMetadata ''platform'' (hc_propertyMetadata cfg) @
                 concat (map inventoryPort (hc_ports cfg)) @
                 (if uc_hfpYamlPath c = [] then []
                  else case readFileToString files (uc_hfpYamlPath c) of
                         None \<Rightarrow> ''hfpYamlBytes=(unavailable)'' @ newline
                       | Some yaml \<Rightarrow> ''hfpYamlBytes='' @ show_nat (length yaml) @ newline)
           in (True, Some inv, map_option (\<lambda>_. []) outError)))"

section \<open>Properties\<close>

text \<open>
  The message queue is first in, first out. Whatever sequence of control-plane callbacks
  arrives, the messages handed out are the queued ones in order of arrival, each with the
  key and payload of its callback; when there are none left, nothing is handed out.
\<close>

lemma message_queue_fifo:
  "fst (ut_queue.drain n (fold (\<lambda>(key, instance). pushMessage key instance) arrivals c)) =
     take n (uc_messageQueue c @ map (\<lambda>(key, instance). make_message key instance c) arrivals) \<and>
   (uc_messageQueue c = [] \<longleftrightarrow> fst (getMessage c) = None)"
  using ut_queue.fifo_order [of n arrivals c]
  by (auto simp: case_prod_unfold getMessage_def split: list.split)

text \<open>
  The control plane is initialised once and torn down once. \<open>init\<close> leaves the controller
  running exactly when it reports success; while it runs, a further \<open>init\<close> calls nobody; an
  instance that cannot be registered is released again; after \<open>shutdown\<close> it is not running
  and holds no message, and a second \<open>shutdown\<close> releases nothing.
\<close>

lemma control_plane_lifecycle:
  "let (ok, c1, es) = ut_controller_init env port userData c;
       (c2, es2) = ut_controller_shutdown c1
   in isRunning c1 = ok \<and>
      (if isRunning c then es = [] \<and> c1 = c
       else ok = (ControlPlaneStart (the (ut_init env port)) \<in> set es)) \<and>
      (\<forall>h. count_list es (ControlPlaneExit h) =
             (if \<not> ok \<and> ut_init env port = Some h then 1 else 0)) \<and>
      \<not> isRunning c2 \<and> uc_messageQueue c2 = [] \<and> snd (ut_controller_shutdown c2) = []"
  by (auto simp: ut_controller_init_def ut_controller_shutdown_def isRunning_def Let_def
      split: option.split)

text \<open>
  Loading a profile is all or nothing. Either it succeeds, the stored configuration is
  well formed and the path is remembered, or it fails and the controller is unconfigured.
\<close>

lemma load_configuration_all_or_nothing:
  "let (ok, err, c') = loadConfiguration longBits bufSize openKvp path outError c
   in if ok then wf_config (uc_hfpConfig c') \<and> uc_hfpYamlPath c' = path \<and> path \<noteq> []
      else uc_hfpConfig c' = default_hfp_config \<and> uc_hfpYamlPath c' = []"
proof -
  let ?r = "parseConfig longBits bufSize openKvp (Some path) (map_option (\<lambda>_. []) outError)"
  have "fst ?r \<Longrightarrow> wf_config (fst (snd ?r)) \<and> path \<noteq> []"
    by (auto simp: parseConfig_def Let_def dest: readProfile_wf split: option.splits sum.splits if_splits)
  then show ?thesis
    by (auto simp: loadConfiguration_def loadHfpConfig_def case_prod_unfold Let_def)
qed

end
