(* ===== verification/Manager.thy ===== *)
theory Manager
  imports Port_Interleaving Port_Controller Ut_Controller
begin

text \<open>
  \<open>CompositeInputManager\<close> (\<open>vcomponent_CompositeInputManager.cpp\<close>): it loads the HFP profile,
  builds the ports and the platform capabilities, answers the Binder queries, and runs the
  worker that takes control-plane messages from the queue and routes them to ports. A port
  reference handed out is the place of the port in the manager's list.
\<close>

section \<open>Process-wide settings\<close>

record settings =
  utControlPlanePort :: uint16
  configurationPath :: string

definition kDefaultHfpPath :: string where
  "kDefaultHfpPath = ''vcomponent_configurations/hfp-compositeinput.yaml''"

definition initial_settings :: settings where
  "initial_settings = \<lparr>utControlPlanePort = 8086, configurationPath = kDefaultHfpPath\<rparr>"

definition setConfigurationPath :: "string \<Rightarrow> settings \<Rightarrow> settings" where
  "setConfigurationPath path s = (if path = [] then s else s\<lparr>configurationPath := path\<rparr>)"

definition setControlPlanePort :: "uint16 \<Rightarrow> settings \<Rightarrow> settings" where
  "setControlPlanePort port s = (if port = 0 then s else s\<lparr>utControlPlanePort := port\<rparr>)"

section \<open>State\<close>

record manager =
  mg_platformCaps :: platform_capabilities
  mg_ports :: "port list"
  mg_stopUtWorker :: bool
  mg_ut :: ut_controller

text \<open>\<open>caps0\<close> is a value-initialised \<open>PlatformCapabilities\<close>, whose type is generated.\<close>

definition blank_manager :: "platform_capabilities \<Rightarrow> manager" where
  "blank_manager caps0 =
     \<lparr>mg_platformCaps = caps0, mg_ports = [], mg_stopUtWorker = False,
      mg_ut = initial_ut_controller\<rparr>"

section \<open>Loading the profile\<close>

definition mapPortCapabilities :: "port_config \<Rightarrow> port_capabilities" where
  "mapPortCapabilities p =
     \<lparr>pc_supportedProperties = toPortProperties (cp_supportedProperties p),
      pc_propertyMetadata = toNullablePropertyMetadata (cp_propertyMetadata p)\<rparr>"

fun buildPorts :: "int list \<Rightarrow> port_config list \<Rightarrow> port list" where
  "buildPorts seenIds [] = []"
| "buildPorts seenIds (p # ps) =
     (if cp_id p < 0 then buildPorts seenIds ps
      else if cp_id p \<in> set seenIds then buildPorts seenIds ps
      else boot_port (cp_id p, cp_name p, cp_description p, mapPortCapabilities p)
           # buildPorts (seenIds @ [cp_id p]) ps)"

definition int8_max :: int where "int8_max = 127"

definition clampMaxPorts :: "int \<Rightarrow> nat \<Rightarrow> int" where
  "clampMaxPorts declared ports =
     (let maxPorts = declared;
          maxPorts = (if maxPorts < int ports then int ports else maxPorts)
      in if maxPorts > int8_max then int8_max else maxPorts)"

definition platformCapabilitiesFor :: "hfp_config \<Rightarrow> nat \<Rightarrow> platform_capabilities" where
  "platformCapabilitiesFor c ports =
     \<lparr>pl_halVersion = hc_halVersion c,
      pl_maxPorts = clampMaxPorts (hc_maxPorts c) ports,
      pl_maximumConcurrentStartedPorts =
        (if hc_maximumConcurrentStartedPorts c \<ge> 1 then hc_maximumConcurrentStartedPorts c else 1),
      pl_supportedProperties = toPortProperties (hc_supportedProperties c),
      pl_propertyMetadata = toNullablePropertyMetadata (hc_propertyMetadata c),
      pl_macrovisionDetectionSupported = hc_macrovisionDetectionSupported c\<rparr>"

definition loadCapabilitiesFromConfig ::
  "nat \<Rightarrow> nat \<Rightarrow> (string \<Rightarrow> kvp sp) \<Rightarrow> string \<Rightarrow> manager \<Rightarrow> globals \<Rightarrow>
   bool \<times> manager \<times> globals" where
  "loadCapabilitiesFromConfig longBits bufSize openKvp path mg g =
     (if path = [] then (False, mg, g)
      else
        (let (ok, cfg, err) = loadHfpConfig longBits bufSize openKvp path
               (Some default_hfp_config) (Some [])
         in if \<not> ok then (False, mg, g)
            else
              (let c = the cfg; ports = buildPorts [] (hc_ports c)
               in if ports = [] then (False, mg, g)
                  else
                    (let caps = platformCapabilitiesFor c (length ports)
                     in (True, mg\<lparr>mg_platformCaps := caps, mg_ports := ports\<rparr>,
                         setMaxConcurrentStartedPorts (pl_maximumConcurrentStartedPorts caps) g)))))"

text \<open>The constructor: control plane first, then the profile, then the worker.\<close>

definition CompositeInputManager ::
  "ut_env \<Rightarrow> nat \<Rightarrow> nat \<Rightarrow> (string \<Rightarrow> kvp sp) \<Rightarrow> platform_capabilities \<Rightarrow> settings \<Rightarrow> globals \<Rightarrow>
   manager \<times> globals \<times> ut_effect list" where
  "CompositeInputManager uenv longBits bufSize openKvp caps0 s g =
     (let (ok, ut, es) = ut_controller_init uenv (utControlPlanePort s) None (mg_ut (blank_manager caps0));
          (loaded, mg, g') = loadCapabilitiesFromConfig longBits bufSize openKvp (configurationPath s)
             ((blank_manager caps0)\<lparr>mg_ut := ut\<rparr>) g
      in (mg\<lparr>mg_stopUtWorker := False\<rparr>, g', es))"

definition destroyManager :: "manager \<Rightarrow> manager \<times> ut_effect list" where
  "destroyManager mg =
     (let (ut, es) = ut_controller_shutdown (mg_ut mg)
      in (mg\<lparr>mg_stopUtWorker := True, mg_ut := ut\<rparr>, es))"

section \<open>Binder queries\<close>

definition getPlatformCapabilities ::
  "platform_capabilities out \<Rightarrow> manager \<Rightarrow> status \<times> platform_capabilities out" where
  "getPlatformCapabilities ret mg = with_out ret (mg_platformCaps mg)"

definition getPortIds :: "int list out \<Rightarrow> manager \<Rightarrow> status \<times> int list out" where
  "getPortIds ret mg = with_out ret (map m_portId (mg_ports mg))"

text \<open>\<open>std::find_if\<close> over the ports: the place of the first one with the ID.\<close>

fun findPort :: "int \<Rightarrow> nat \<Rightarrow> port list \<Rightarrow> nat sp" where
  "findPort portId i [] = None"
| "findPort portId i (p # ps) = (if m_portId p = portId then Some i else findPort portId (Suc i) ps)"

definition getPort :: "int \<Rightarrow> nat sp out \<Rightarrow> manager \<Rightarrow> status \<times> nat sp out" where
  "getPort portId ret mg =
     (case ret of
        None \<Rightarrow> (StatusEx EX_NULL_POINTER, None)
      | Some _ \<Rightarrow>
          if portId < 0 then (StatusEx EX_ILLEGAL_ARGUMENT, Some None)
          else (case findPort portId 0 (mg_ports mg) of
                  Some i \<Rightarrow> (StatusOk, Some (Some i))
                | None \<Rightarrow> (StatusEx EX_ILLEGAL_ARGUMENT, Some None)))"

section \<open>Control-plane messages\<close>

text \<open>
  \<open>openMemory\<close> is \<open>ut_kvp_createInstance\<close> with \<open>ut_kvp_openMemory\<close> on the payload; null when
  either fails. \<open>routedPort\<close> reads the target port, 0 by default.
\<close>

definition kPortKey :: string where "kPortKey = ''compositeinput.params.port''"

definition routedPort :: "kvp \<Rightarrow> int" where
  "routedPort kvp =
     (if ut_kvp_fieldPresent kvp kPortKey then cast_int32 (ut_kvp_getUInt32Field kvp kPortKey) else 0)"

definition handleQueuedUtMessage ::
  "get_map_value \<Rightarrow> (string \<Rightarrow> kvp sp) \<Rightarrow> binder_env \<Rightarrow> ut_message \<Rightarrow> manager \<Rightarrow>
   manager \<times> effect list" where
  "handleQueuedUtMessage getMapValue openMemory env msg mg =
     (let payload = fst (snd msg) in
      if payload = [] then (mg, [])
      else case openMemory payload of
             None \<Rightarrow> (mg, [])
           | Some kvp \<Rightarrow>
               (case findPort (routedPort kvp) 0 (mg_ports mg) of
                  None \<Rightarrow> (mg, [])
                | Some i \<Rightarrow>
                    (let (p, es) = handleUTControlPlaneMessage getMapValue env (Some kvp) (mg_ports mg ! i)
                     in (mg\<lparr>mg_ports := (mg_ports mg)[i := p]\<rparr>, es))))"

text \<open>
  One turn of \<open>utWorkerLoop\<close> (\<open>None\<close>: the loop ends). An empty queue makes the worker sleep
  10 ms, which changes nothing.
\<close>

definition utWorkerTurn ::
  "get_map_value \<Rightarrow> (string \<Rightarrow> kvp sp) \<Rightarrow> binder_env \<Rightarrow> manager \<Rightarrow> (manager \<times> effect list) option" where
  "utWorkerTurn getMapValue openMemory env mg =
     (if mg_stopUtWorker mg then None
      else
        (let (msg, ut) = getMessage (mg_ut mg); mg1 = mg\<lparr>mg_ut := ut\<rparr>
         in case msg of
              None \<Rightarrow> Some (mg1, [])
            | Some m \<Rightarrow> Some (handleQueuedUtMessage getMapValue openMemory env m mg1)))"

fun utWorkerLoop ::
  "nat \<Rightarrow> get_map_value \<Rightarrow> (string \<Rightarrow> kvp sp) \<Rightarrow> binder_env \<Rightarrow> manager \<Rightarrow> manager \<times> effect list" where
  "utWorkerLoop 0 getMapValue openMemory env mg = (mg, [])"
| "utWorkerLoop (Suc turns) getMapValue openMemory env mg =
     (case utWorkerTurn getMapValue openMemory env mg of
        None \<Rightarrow> (mg, [])
      | Some (mg1, es) \<Rightarrow>
          (let (mg2, es2) = utWorkerLoop turns getMapValue openMemory env mg1 in (mg2, es @ es2)))"


section \<open>Loading, proved\<close>

definition configured_port :: "port_config \<Rightarrow> port" where
  "configured_port p = boot_port (cp_id p, cp_name p, cp_description p, mapPortCapabilities p)"

lemma boot_port_id [simp]: "m_portId (boot_port (i, n, d, c)) = i"
  by (simp add: boot_port_def resetHardwareBaselineForBoot_def setCapabilities_def setPortInfo_def
      CompositeInputPort_def Let_def)

lemma configured_port_facts [simp]:
  "m_portId (configured_port p) = cp_id p" "m_state (configured_port p) = CLOSED"
  "port_inv (configured_port p)"
  by (simp_all add: configured_port_def boot_port_inv)

text \<open>For a well-formed profile no entry is skipped.\<close>

lemma buildPorts_wf:
  "list_all wf_port ps \<Longrightarrow> distinct (map cp_id ps) \<Longrightarrow> set (map cp_id ps) \<inter> set seen = {} \<Longrightarrow>
   buildPorts seen ps = map configured_port ps"
  by (induction ps arbitrary: seen) (auto simp: wf_port_def configured_port_def)

lemma load_config_wf:
  "loadHfpConfig w b openKvp path (Some d) (Some []) = (True, cfg, err) \<Longrightarrow> wf_config (the cfg)"
  using parseConfig_sound [where w = w and b = b and openKvp = openKvp and configFile = "Some path"
      and outError = "Some []"]
  by (auto simp: loadHfpConfig_def case_prod_unfold Let_def)

lemma load_cases:
  obtains (failed) "loadCapabilitiesFromConfig w b openKvp path mg g = (False, mg, g)"
  | (loaded) c where "wf_config c" "path \<noteq> []"
      "loadCapabilitiesFromConfig w b openKvp path mg g =
        (True, mg\<lparr>mg_platformCaps := platformCapabilitiesFor c (length (hc_ports c)),
                  mg_ports := map configured_port (hc_ports c)\<rparr>,
         setMaxConcurrentStartedPorts (hc_maximumConcurrentStartedPorts c) g)"
proof -
  obtain ok cfg err where r: "loadHfpConfig w b openKvp path (Some default_hfp_config) (Some []) = (ok, cfg, err)"
    by (cases "loadHfpConfig w b openKvp path (Some default_hfp_config) (Some [])") auto
  show ?thesis
  proof (cases "path \<noteq> [] \<and> ok")
    case True
    then have wf: "wf_config (the cfg)" using r by (auto intro: load_config_wf)
    then have "buildPorts [] (hc_ports (the cfg)) = map configured_port (hc_ports (the cfg))"
      by (intro buildPorts_wf) (simp_all add: wf_config_def)
    with True r wf show ?thesis
      by (intro loaded [of "the cfg"])
        (simp_all add: loadCapabilitiesFromConfig_def Let_def wf_config_def platformCapabilitiesFor_def)
  next
    case False
    with r show ?thesis by (intro failed) (auto simp: loadCapabilitiesFromConfig_def)
  qed
qed

lemma clamp_bounds:
  "1 \<le> declared \<Longrightarrow> 1 \<le> clampMaxPorts declared n \<and> clampMaxPorts declared n \<le> 127 \<and>
   min (int n) 127 \<le> clampMaxPorts declared n"
  by (auto simp: clampMaxPorts_def int8_max_def Let_def)

lemma findPort_result:
  "case findPort i k ps of
     None \<Rightarrow> i \<notin> set (map m_portId ps)
   | Some j \<Rightarrow> k \<le> j \<and> j < k + length ps \<and> m_portId (ps ! (j - k)) = i"
proof (induction ps arbitrary: k)
  case (Cons p ps)
  show ?case
    using Cons [where k = "Suc k"] by (auto split: option.splits simp: nth_Cons' Suc_diff_le)
qed simp

lemma findPort_some: "findPort i 0 ps = Some j \<Longrightarrow> j < length ps \<and> m_portId (ps ! j) = i"
  using findPort_result [where i = i and k = 0 and ps = ps] by simp

lemma findPort_none: "findPort i 0 ps = None \<longleftrightarrow> i \<notin> set (map m_portId ps)"
proof
  show "findPort i 0 ps = None \<Longrightarrow> i \<notin> set (map m_portId ps)"
    using findPort_result [where i = i and k = 0 and ps = ps] by simp
  show "i \<notin> set (map m_portId ps) \<Longrightarrow> findPort i 0 ps = None"
    using findPort_some [where i = i and ps = ps] by (cases "findPort i 0 ps") (auto dest: nth_mem)
qed

text \<open>The search is the first place whose port has the ID.\<close>

lemma findPort_find:
  "findPort i k ps = map_option ((+) k) (List.find (\<lambda>j. map m_portId ps ! j = i) [0..<length ps])"
proof (induction ps arbitrary: k)
  case (Cons p ps)
  have shift: "List.find P (map Suc xs) = map_option Suc (List.find (\<lambda>x. P (Suc x)) xs)" for P xs
    by (induction xs) auto
  have "[0..<length (p # ps)] = 0 # map Suc [0..<length ps]"
    by (simp add: map_Suc_upt upt_conv_Cons del: upt_Suc)
  with Cons [of "Suc k"] show ?case
    by (simp add: shift option.map_comp comp_def del: upt_Suc)
qed simp

section \<open>Messages, proved\<close>

lemma handle_only_routed:
  obtains (ignored) "handleQueuedUtMessage gm om env msg mg = (mg, [])"
  | (routed) kvp i where "om (fst (snd msg)) = Some kvp" "findPort (routedPort kvp) 0 (mg_ports mg) = Some i"
      "handleQueuedUtMessage gm om env msg mg =
        (mg\<lparr>mg_ports := (mg_ports mg)
              [i := fst (handleUTControlPlaneMessage gm env (Some kvp) (mg_ports mg ! i))]\<rparr>,
         snd (handleUTControlPlaneMessage gm env (Some kvp) (mg_ports mg ! i)))"
proof (cases "fst (snd msg) = [] \<or> om (fst (snd msg)) = None")
  case True
  show ?thesis
    by (rule ignored) (use True in \<open>auto simp: handleQueuedUtMessage_def Let_def\<close>)
next
  case False
  then obtain kvp where kvp: "fst (snd msg) \<noteq> []" "om (fst (snd msg)) = Some kvp" by auto
  show ?thesis
  proof (cases "findPort (routedPort kvp) 0 (mg_ports mg)")
    case None
    show ?thesis
      by (rule ignored) (use None kvp in \<open>simp add: handleQueuedUtMessage_def\<close>)
  next
    case (Some i)
    show ?thesis
      by (rule routed [OF kvp(2) Some])
        (use Some kvp in \<open>simp add: handleQueuedUtMessage_def case_prod_unfold Let_def\<close>)
  qed
qed

lemma handle_keeps:
  "mg_ut (fst (handleQueuedUtMessage gm om env msg mg)) = mg_ut mg"
  "mg_stopUtWorker (fst (handleQueuedUtMessage gm om env msg mg)) = mg_stopUtWorker mg"
  "length (mg_ports (fst (handleQueuedUtMessage gm om env msg mg))) = length (mg_ports mg)"
  by (cases gm om env msg mg rule: handle_only_routed; simp)+

lemma handle_ut_update:
  "handleQueuedUtMessage gm om env msg (mg\<lparr>mg_ut := u\<rparr>) =
     ((fst (handleQueuedUtMessage gm om env msg mg))\<lparr>mg_ut := u\<rparr>,
      snd (handleQueuedUtMessage gm om env msg mg))"
  by (simp add: handleQueuedUtMessage_def Let_def case_prod_unfold split: option.split)

text \<open>The messages of a list handled one after the other.\<close>

fun handleAll ::
  "get_map_value \<Rightarrow> (string \<Rightarrow> kvp sp) \<Rightarrow> binder_env \<Rightarrow> ut_message list \<Rightarrow> manager \<Rightarrow>
   manager \<times> effect list" where
  "handleAll gm om env [] mg = (mg, [])"
| "handleAll gm om env (m # ms) mg =
     (let (mg1, es) = handleQueuedUtMessage gm om env m mg;
          (mg2, es2) = handleAll gm om env ms mg1
      in (mg2, es @ es2))"

definition dropMessages :: "nat \<Rightarrow> manager \<Rightarrow> manager" where
  "dropMessages n mg =
     mg\<lparr>mg_ut := (mg_ut mg)\<lparr>uc_messageQueue := drop n (uc_messageQueue (mg_ut mg))\<rparr>\<rparr>"

lemma dropMessages_0 [simp]: "dropMessages 0 mg = mg"
  by (simp add: dropMessages_def)

lemma handleAll_ut_update:
  "handleAll gm om env ms (mg\<lparr>mg_ut := u\<rparr>) =
     ((fst (handleAll gm om env ms mg))\<lparr>mg_ut := u\<rparr>, snd (handleAll gm om env ms mg))"
  by (induction ms arbitrary: mg) (simp_all add: handle_ut_update case_prod_unfold Let_def)

lemma handleAll_keeps:
  "mg_ut (fst (handleAll gm om env ms mg)) = mg_ut mg"
  by (induction ms arbitrary: mg) (simp_all add: handle_keeps case_prod_unfold Let_def)

lemma worker_turn:
  "\<not> mg_stopUtWorker mg \<Longrightarrow>
   utWorkerTurn gm om env mg =
     Some (case uc_messageQueue (mg_ut mg) of
             [] \<Rightarrow> (mg, [])
           | m # ms \<Rightarrow>
               (dropMessages 1 (fst (handleQueuedUtMessage gm om env m mg)),
                snd (handleQueuedUtMessage gm om env m mg)))"
  by (simp add: utWorkerTurn_def getMessage_def dropMessages_def handle_ut_update handle_keeps
      split: list.split)

lemma worker_loop:
  "\<not> mg_stopUtWorker mg \<Longrightarrow>
   utWorkerLoop n gm om env mg =
     (let r = handleAll gm om env (take n (uc_messageQueue (mg_ut mg))) mg
      in (dropMessages n (fst r), snd r))"
proof (induction n arbitrary: mg)
  case (Suc n)
  show ?case
  proof (cases "uc_messageQueue (mg_ut mg)")
    case Nil
    then have "dropMessages k mg = mg" for k by (simp add: dropMessages_def)
    with Suc Nil show ?thesis by (simp add: worker_turn Let_def)
  next
    case (Cons m ms)
    let ?mg = "fst (handleQueuedUtMessage gm om env m mg)"
    have q: "uc_messageQueue (mg_ut (dropMessages 1 ?mg)) = ms"
      using Cons by (simp add: dropMessages_def handle_keeps)
    have "\<not> mg_stopUtWorker (dropMessages 1 ?mg)"
      using Suc.prems by (simp add: dropMessages_def handle_keeps)
    note IH = Suc.IH [OF this, unfolded q Let_def]
    have "handleAll gm om env xs (dropMessages 1 ?mg) =
        ((fst (handleAll gm om env xs ?mg))\<lparr>mg_ut := mg_ut (dropMessages 1 ?mg)\<rparr>,
         snd (handleAll gm om env xs ?mg))" for xs
      using handleAll_ut_update [where mg = ?mg and ms = xs and u = "mg_ut (dropMessages 1 ?mg)"]
      by (simp add: dropMessages_def)
    with Suc.prems Cons IH show ?thesis
      by (simp add: worker_turn Let_def case_prod_unfold dropMessages_def handleAll_keeps handle_keeps)
  qed
qed simp


section \<open>Properties\<close>

text \<open>
  Loading a profile is all or nothing, and what it loads is sound. On failure neither the
  manager nor the process-wide limit changes. On success the profile was well formed, no port
  entry was skipped, every port comes up closed with its invariant and the configured ID, the
  IDs are distinct, the advertised port count is within the AIDL byte and no less than the
  number of ports the byte can express, and the limit of started ports is the declared one.
\<close>

lemma load_all_or_nothing:
  "let (ok, mg', g') = loadCapabilitiesFromConfig longBits bufSize openKvp path mg g in
     if ok
     then (\<exists>c. wf_config c \<and>
             map m_portId (mg_ports mg') = map cp_id (hc_ports c) \<and>
             mg_ports mg' \<noteq> [] \<and> distinct (map m_portId (mg_ports mg')) \<and>
             list_all (\<lambda>p. m_state p = CLOSED \<and> port_inv p) (mg_ports mg') \<and>
             min (int (length (mg_ports mg'))) 127 \<le> pl_maxPorts (mg_platformCaps mg') \<and>
             pl_maxPorts (mg_platformCaps mg') \<le> 127 \<and>
             g_maxStartedPorts g' = hc_maximumConcurrentStartedPorts c \<and>
             pl_maximumConcurrentStartedPorts (mg_platformCaps mg') = g_maxStartedPorts g')
     else mg' = mg \<and> g' = g"
proof (cases longBits bufSize openKvp path mg g rule: load_cases)
  case failed
  then show ?thesis by simp
next
  case (loaded c)
  then show ?thesis
    using clamp_bounds [of "hc_maxPorts c" "length (hc_ports c)"]
    by (auto simp: wf_config_def comp_def list_all_iff platformCapabilitiesFor_def
        setMaxConcurrentStartedPorts_def intro!: exI [of _ c])
qed

text \<open>
  A freshly started service is a booted system of \<open>Port_Interleaving\<close>: the loaded ports
  and the process-wide count are those of \<open>boot_system\<close> for the declared limit, so all that
  is proved there about concurrent calls holds of the service.
\<close>

lemma loaded_service_is_booted:
  assumes "loadCapabilitiesFromConfig longBits bufSize openKvp path mg initial_globals = (True, mg', g')"
  shows "\<exists>c. wf_config c \<and>
    (let s = boot_system (hc_maximumConcurrentStartedPorts c)
               (map (\<lambda>p. (cp_id p, cp_name p, cp_description p, mapPortCapabilities p)) (hc_ports c))
     in mg_ports mg' = sys_ports s \<and> g' = sys_globals s)"
  using assms
  by (cases longBits bufSize openKvp path mg initial_globals rule: load_cases)
    (auto simp: boot_system_def configured_port_def)

text \<open>
  \<open>getPort\<close> answers from the list that \<open>getPortIds\<close> reports: it finds a port exactly for
  the nonnegative IDs listed, and the port found has the ID asked for; any other ID is refused
  with EX_ILLEGAL_ARGUMENT and a null port; a null result pointer is refused before anything
  else.
\<close>

lemma getPort_spec:
  "getPort portId None mg = (StatusEx EX_NULL_POINTER, None) \<and>
   (case getPort portId (Some old) mg of
      (st, ret) \<Rightarrow>
        if 0 \<le> portId \<and> portId \<in> set (the (snd (getPortIds (Some []) mg)))
        then st = StatusOk \<and> (\<exists>i. ret = Some (Some i) \<and> i < length (mg_ports mg) \<and>
               m_portId (mg_ports mg ! i) = portId)
        else st = StatusEx EX_ILLEGAL_ARGUMENT \<and> ret = Some None)"
proof (cases "findPort portId 0 (mg_ports mg)")
  case None
  then have "portId \<notin> set (map m_portId (mg_ports mg))" by (rule findPort_none [THEN iffD1])
  with None show ?thesis
    by (simp add: getPort_def getPortIds_def with_out_def)
next
  case (Some i)
  then have "portId \<in> set (map m_portId (mg_ports mg))"
    by (metis findPort_none option.distinct(1))
  with Some findPort_some [OF Some] show ?thesis
    by (auto simp: getPort_def getPortIds_def with_out_def)
qed

text \<open>
  C25: a control-plane message is handed to the port it names and to no other. The port named is
  the first one whose ID is the signed value of the message's port field, or 0 without such a
  field: exactly the handler of that port runs, and the port list changes in that place only. An
  empty, unparsable or unroutable message changes nothing and calls nobody back. No message
  changes a session (state, controller, listeners, epoch).
\<close>

theorem ut_message_routing:
  "let (mg', es) = handleQueuedUtMessage getMapValue openMemory env msg mg;
      payload = fst (snd msg);
      ports = mg_ports mg;
      named = (\<lambda>kvp. if ut_kvp_fieldPresent kvp ''compositeinput.params.port''
                     then sint (ut_kvp_getUInt32Field kvp ''compositeinput.params.port'') else 0)
    in (case if payload = [] then None else openMemory payload of
          None \<Rightarrow> mg' = mg \<and> es = []
        | Some kvp \<Rightarrow>
            (case List.find (\<lambda>i. m_portId (ports ! i) = named kvp) [0..<length ports] of
               None \<Rightarrow> mg' = mg \<and> es = []
             | Some i \<Rightarrow>
                 (let (p, calls) = handleUTControlPlaneMessage getMapValue env (Some kvp) (ports ! i)
                  in mg' = mg\<lparr>mg_ports := ports[i := p]\<rparr> \<and> es = calls))) \<and>
       map session_view (mg_ports mg') = map session_view ports"
proof -
  let ?ports = "mg_ports mg" and ?r = "handleQueuedUtMessage getMapValue openMemory env msg mg"
  have named: "routedPort kvp = (if ut_kvp_fieldPresent kvp ''compositeinput.params.port''
      then sint (ut_kvp_getUInt32Field kvp ''compositeinput.params.port'') else 0)" for kvp
    by (simp add: routedPort_def kPortKey_def cast_int32_def)
  have found: "findPort n 0 ?ports = List.find (\<lambda>i. m_portId (?ports ! i) = n) [0..<length ?ports]" for n
  proof -
    have "List.find (\<lambda>i. m_portId (?ports ! i) = n) [0..<length ?ports] =
        List.find (\<lambda>i. map m_portId ?ports ! i = n) [0..<length ?ports]"
      by (rule find_cong) simp_all
    moreover have "map_option ((+) 0) x = x" for x :: "nat option" by (cases x) simp_all
    ultimately show ?thesis by (simp add: findPort_find)
  qed
  have "map session_view (mg_ports (fst ?r)) = map session_view ?ports"
    by (cases getMapValue openMemory env msg mg rule: handle_only_routed)
      (simp_all add: map_update list_update_same_conv handle_session_view findPort_some)
  then show ?thesis
    by (auto simp: handleQueuedUtMessage_def named [symmetric] found [symmetric] Let_def case_prod_unfold
        split: option.split)
qed

text \<open>
  The worker handles the queued messages one by one, in their order of arrival. \<open>n\<close> turns
  of the loop are the handling of the first \<open>n\<close> queued messages, each taken from the queue
  exactly once; a loop told to stop does nothing.
\<close>

lemma worker_handles_in_order:
  "utWorkerLoop n getMapValue openMemory env mg =
     (if mg_stopUtWorker mg then (mg, [])
      else (let r = handleAll getMapValue openMemory env (take n (uc_messageQueue (mg_ut mg))) mg
            in (dropMessages n (fst r), snd r)))"
proof (cases "mg_stopUtWorker mg")
  case True
  then show ?thesis by (cases n) (simp_all add: utWorkerTurn_def)
next
  case False
  then show ?thesis by (simp add: worker_loop)
qed

text \<open>
  What a port advertises is what its profile entry declares. For a well-formed entry every
  token is mapped, in order, and the metadata array names the same properties in the same
  order, with the declared access flags.
\<close>

lemma advertised_capabilities_match_profile:
  assumes "wf_port p"
  shows "map Some (pc_supportedProperties (mapPortCapabilities p)) =
      map portProperty_of (cp_supportedProperties p) \<and>
    (case pc_propertyMetadata (mapPortCapabilities p) of
       None \<Rightarrow> cp_supportedProperties p = []
     | Some ms \<Rightarrow>
         map (map_option md_key) ms = map Some (pc_supportedProperties (mapPortCapabilities p)) \<and>
         length ms = length (cp_propertyMetadata p))"
proof -
  let ?es = "cp_propertyMetadata p"
  have known: "\<forall>t \<in> set (cp_supportedProperties p). portProperty_of t \<noteq> None"
    and keys: "map mc_key ?es = cp_supportedProperties p"
    and types: "\<forall>e \<in> set ?es. propertyType_of (mc_type e) \<noteq> None"
    using assms by (auto simp: wf_port_def wf_properties_def list_all_iff)
  have "\<forall>e \<in> set ?es. portProperty_of (mc_key e) \<noteq> None"
    using known unfolding keys [symmetric] by simp
  with types have md: "map md_key (toPropertyMetadata ?es) = toPortProperties (cp_supportedProperties p)"
    using toPropertyMetadata_keys [of ?es] keys by simp
  have tp: "toPortProperties (cp_supportedProperties p) = map (the \<circ> portProperty_of) (cp_supportedProperties p)"
    using known by (intro toPortProperties_all) blast
  then have "map Some (toPortProperties (cp_supportedProperties p)) = map portProperty_of (cp_supportedProperties p)"
    using known by simp
  moreover have "length (toPropertyMetadata ?es) = length ?es"
    using arg_cong [OF md, of length] tp arg_cong [OF keys, of length] by simp
  moreover have "map (map_option md_key) (map Some (toPropertyMetadata ?es)) =
      map Some (toPortProperties (cp_supportedProperties p))"
    using arg_cong [OF md, of "map Some"] by (simp add: comp_def)
  ultimately show ?thesis
    using keys by (auto simp: mapPortCapabilities_def toNullablePropertyMetadata_def)
qed

text \<open>
  The process-wide settings stay usable. The control-plane port is never 0 and the
  configuration path never empty, whatever values are set in whatever order; a refused value
  leaves the current one, not the default.
\<close>

lemma settings_stay_valid:
  "let s = fold (\<lambda>set s. case set of Inl path \<Rightarrow> setConfigurationPath path s
                                   | Inr port \<Rightarrow> setControlPlanePort port s) changes initial_settings
   in utControlPlanePort s \<noteq> 0 \<and> configurationPath s \<noteq> [] \<and>
      setControlPlanePort 0 s = s \<and> setConfigurationPath [] s = s"
proof -
  have "utControlPlanePort s \<noteq> 0 \<and> configurationPath s \<noteq> [] \<Longrightarrow>
      utControlPlanePort (fold (\<lambda>set s. case set of Inl path \<Rightarrow> setConfigurationPath path s
         | Inr port \<Rightarrow> setControlPlanePort port s) changes s) \<noteq> 0 \<and>
      configurationPath (fold (\<lambda>set s. case set of Inl path \<Rightarrow> setConfigurationPath path s
         | Inr port \<Rightarrow> setControlPlanePort port s) changes s) \<noteq> []" for s
    by (induction changes arbitrary: s)
      (auto simp: setConfigurationPath_def setControlPlanePort_def split: sum.split)
  from this [of initial_settings] show ?thesis
    by (simp add: Let_def initial_settings_def kDefaultHfpPath_def setControlPlanePort_def
        setConfigurationPath_def)
qed

end
