(* ===== verification/Resource_Lifetime.thy ===== *)
theory Resource_Lifetime
  imports Manager
begin

text \<open>
  The C objects the code owns. ut-core hands out key/value instances
  (\<open>ut_kvp_createInstance\<close>) and message buffers (\<open>ut_kvp_getData\<close>) that the caller has to give
  back. The definitions of this theory are the functions that own one, with the calls that
  create, use and release it; the theorem says that each object is released exactly once, on
  every path, and never used outside its life.
\<close>

section \<open>Objects and events\<close>

datatype resource = KvpInstance nat | MessageBuffer nat

datatype resource_event = Created resource | Used resource | Released resource

fun resource_of :: "resource_event \<Rightarrow> resource" where
  "resource_of (Created r) = r"
| "resource_of (Used r) = r"
| "resource_of (Released r) = r"

text \<open>
  ut-core's allocator and openers: whether an instance can be created, and the document of a
  file or of a buffer, if it opens. The natural number names the object of one call.
\<close>

record kvp_library =
  lib_createInstance :: bool
  lib_open :: "string \<Rightarrow> kvp sp"
  lib_openMemory :: "string \<Rightarrow> kvp sp"

section \<open>The owners\<close>

definition kvpCreateInstance_owned ::
  "kvp_library \<Rightarrow> nat \<Rightarrow> string sp \<Rightarrow> kvp sp \<times> resource_event list" where
  "kvpCreateInstance_owned lib h fileName =
     (case fileName of
        None \<Rightarrow> (None, [])
      | Some path \<Rightarrow>
          if path = [] then (None, [])
          else if \<not> lib_createInstance lib then (None, [])
          else (case lib_open lib path of
                  None \<Rightarrow> (None, [Created (KvpInstance h), Used (KvpInstance h), Released (KvpInstance h)])
                | Some kvp \<Rightarrow> (Some kvp, [Created (KvpInstance h), Used (KvpInstance h)])))"

definition kvpDestroyInstance :: "nat \<Rightarrow> kvp sp \<Rightarrow> resource_event list" where
  "kvpDestroyInstance h instance = (case instance of None \<Rightarrow> [] | Some _ \<Rightarrow> [Released (KvpInstance h)])"

definition parseConfig_owned ::
  "nat \<Rightarrow> nat \<Rightarrow> kvp_library \<Rightarrow> nat \<Rightarrow> string sp \<Rightarrow> string out \<Rightarrow>
   (bool \<times> hfp_config \<times> string out) \<times> resource_event list" where
  "parseConfig_owned longBits bufSize lib h configurationFile outError =
     (let failed = (\<lambda>msg. (False, default_hfp_config, map_option (\<lambda>_. msg) outError)) in
      case configurationFile of
        None \<Rightarrow> (failed ''CompositeInput HFP YAML path is empty'', [])
      | Some path \<Rightarrow>
          if path = [] then (failed ''CompositeInput HFP YAML path is empty'', [])
          else (let (instance, es) = kvpCreateInstance_owned lib h (Some path) in
                case instance of
                  None \<Rightarrow> (failed (''failed to open CompositeInput HFP YAML: '' @ path), es)
                | Some kvp \<Rightarrow>
                    (let r = readProfile longBits bufSize kvp;
                         es1 = es @ [Used (KvpInstance h)] @ kvpDestroyInstance h instance
                     in case r of
                          Inl msg \<Rightarrow> (failed msg, es1)
                        | Inr c \<Rightarrow> ((True, c, map_option (\<lambda>_. []) outError), es1))))"

definition handleQueuedUtMessage_owned ::
  "get_map_value \<Rightarrow> kvp_library \<Rightarrow> nat \<Rightarrow> binder_env \<Rightarrow> ut_message \<Rightarrow> manager \<Rightarrow>
   (manager \<times> effect list) \<times> resource_event list" where
  "handleQueuedUtMessage_owned getMapValue lib h env msg mg =
     (let payload = fst (snd msg); r = KvpInstance h in
      if payload = [] then ((mg, []), [])
      else if \<not> lib_createInstance lib then ((mg, []), [])
      else case lib_openMemory lib payload of
             None \<Rightarrow> ((mg, []), [Created r, Used r, Released r])
           | Some kvp \<Rightarrow>
               (case findPort (routedPort kvp) 0 (mg_ports mg) of
                  None \<Rightarrow> ((mg, []), [Created r, Used r, Used r, Released r])
                | Some i \<Rightarrow>
                    (let (p, es) = handleUTControlPlaneMessage getMapValue env (Some kvp) (mg_ports mg ! i)
                     in ((mg\<lparr>mg_ports := (mg_ports mg)[i := p]\<rparr>, es),
                         [Created r, Used r, Used r, Used r, Released r]))))"

text \<open>\<open>std::free\<close> of a null pointer does nothing.\<close>

definition pushMessage_owned ::
  "nat \<Rightarrow> string sp \<Rightarrow> string sp sp \<Rightarrow> ut_controller \<Rightarrow> ut_controller \<times> resource_event list" where
  "pushMessage_owned h key instance c =
     (let messageKey = (case key of Some k \<Rightarrow> k | None \<Rightarrow> []);
          rawMessage = (case instance of Some data \<Rightarrow> data | None \<Rightarrow> None);
          r = MessageBuffer h;
          (messagePayload, es) =
            (case rawMessage of Some m \<Rightarrow> (m, [Created r, Used r]) | None \<Rightarrow> ([], []));
          es1 = es @ (if rawMessage \<noteq> None then [Released r] else [])
      in (c\<lparr>uc_messageQueue := uc_messageQueue c @ [(messageKey, messagePayload, uc_userData c)]\<rparr>, es1))"

section \<open>A life\<close>

definition lifetime_ok :: "resource_event list \<Rightarrow> bool" where
  "lifetime_ok es \<longleftrightarrow>
     (\<forall>r. filter (\<lambda>e. resource_of e = r) es = [] \<or>
        (\<exists>n. filter (\<lambda>e. resource_of e = r) es = Created r # replicate n (Used r) @ [Released r]))"

lemma lifetime_single:
  "lifetime_ok []"
  "lifetime_ok (Created r # replicate n (Used r) @ [Released r])"
  by (auto simp: lifetime_ok_def)

lemma lifetime_cases:
  "lifetime_ok [Created r, Used r, Released r]"
  "lifetime_ok [Created r, Used r, Used r, Released r]"
  "lifetime_ok [Created r, Used r, Used r, Used r, Released r]"
  using lifetime_single(2) [of r 1] lifetime_single(2) [of r 2] lifetime_single(2) [of r 3]
  by (simp_all add: numeral_2_eq_2 numeral_3_eq_3)

text \<open>Calls that own different objects can interleave in any way.\<close>

lemma lifetime_interleaved:
  assumes "es \<in> shuffles xs ys" and "lifetime_ok xs" and "lifetime_ok ys"
    and "resource_of ` set xs \<inter> resource_of ` set ys = {}"
  shows "lifetime_ok es"
  unfolding lifetime_ok_def
proof
  fix r
  let ?f = "filter (\<lambda>e. resource_of e = r)"
  have "?f es \<in> shuffles (?f xs) (?f ys)"
    using assms(1) by (metis filter_shuffles image_eqI)
  moreover have "?f xs = [] \<or> ?f ys = []"
    using assms(4) by (auto simp: filter_empty_conv)
  ultimately have "?f es = ?f xs \<or> ?f es = ?f ys" by auto
  moreover have "?f zs = [] \<or> (\<exists>n. ?f zs = Created r # replicate n (Used r) @ [Released r])"
    if "lifetime_ok zs" for zs
    using that by (simp add: lifetime_ok_def)
  ultimately show "?f es = [] \<or> (\<exists>n. ?f es = Created r # replicate n (Used r) @ [Released r])"
    using assms(2,3) by metis
qed

section \<open>Properties\<close>

text \<open>
  C26: nothing leaks and nothing is used after its release. Parsing a profile, handling a message
  and queueing one compute what the definitions without ownership compute, and on every path,
  failures included, each key/value instance and each message buffer they create is released
  exactly once, after its last use.
\<close>

theorem owned_objects_are_released:
  "(let (r, es) = parseConfig_owned longBits bufSize lib h path outError in
      r = parseConfig longBits bufSize (\<lambda>f. if lib_createInstance lib then lib_open lib f else None) path outError \<and>
      lifetime_ok es) \<and>
   (let (r, es) = handleQueuedUtMessage_owned gm lib h env msg mg in
      r = handleQueuedUtMessage gm (\<lambda>m. if lib_createInstance lib then lib_openMemory lib m else None) env msg mg \<and>
      lifetime_ok es) \<and>
   (let (r, es) = pushMessage_owned h key instance c in
      r = pushMessage key instance c \<and> lifetime_ok es)"
proof -
  have "let (r, es) = parseConfig_owned longBits bufSize lib h path outError in
      r = parseConfig longBits bufSize (\<lambda>f. if lib_createInstance lib then lib_open lib f else None) path outError \<and>
      lifetime_ok es"
    by (simp add: parseConfig_owned_def parseConfig_def kvpCreateInstance_owned_def kvpCreateInstance_def
        kvpDestroyInstance_def lifetime_single(1) lifetime_cases split: option.split sum.split)
  moreover have "let (r, es) = handleQueuedUtMessage_owned gm lib h env msg mg in
      r = handleQueuedUtMessage gm (\<lambda>m. if lib_createInstance lib then lib_openMemory lib m else None) env msg mg \<and>
      lifetime_ok es"
    by (simp add: handleQueuedUtMessage_owned_def handleQueuedUtMessage_def lifetime_single(1) lifetime_cases
        case_prod_unfold Let_def split: option.split)
  moreover have "let (r, es) = pushMessage_owned h key instance c in
      r = pushMessage key instance c \<and> lifetime_ok es"
    by (simp add: pushMessage_owned_def pushMessage_def make_message_def lifetime_single(1) lifetime_cases
        Let_def split: option.split)
  ultimately show ?thesis by blast
qed

end
