(* ===== verification/Service.thy ===== *)
theory Service
  imports Manager
begin

text \<open>
  \<open>vcomponent_CompositeInputService.cpp\<close>: the command line and the entry point of the
  service process. A C string argument may be null; \<open>argv\<close> is a list of nullable strings of
  length \<open>argc\<close>. What the process does is the list of calls it makes on the manager.
\<close>

section \<open>Command line\<close>

definition parsePort :: "nat \<Rightarrow> string sp \<Rightarrow> uint16 out \<Rightarrow> bool \<times> uint16 out" where
  "parsePort longBits v outPort =
     (case (v, outPort) of
        (Some text, Some old) \<Rightarrow>
          if text = [] then (False, outPort)
          else
            (case strtol longBits 10 text of
               None \<Rightarrow> (False, outPort)
             | Some (n, outOfRange, rest) \<Rightarrow>
                 if rest \<noteq> [] \<or> n \<le> 0 \<or> n > 65535 then (False, outPort)
                 else (True, Some (word_of_int n)))
      | _ \<Rightarrow> (False, outPort))"

text \<open>
  The loop of \<open>parseArgs\<close> over the remaining arguments: whether to continue, the path and the
  port as they stand when it returns.
\<close>

fun parseArgsLoop ::
  "nat \<Rightarrow> string sp list \<Rightarrow> string \<Rightarrow> uint16 option \<Rightarrow> bool \<times> string \<times> uint16 option" where
  "parseArgsLoop longBits [] path port = (True, path, port)"
| "parseArgsLoop longBits (None # args) path port = parseArgsLoop longBits args path port"
| "parseArgsLoop longBits (Some argument # args) path port =
     (if argument = ''--help'' \<or> argument = ''-h'' then (False, path, port)
      else if argument = ''--hfp''
      then (case args of
              Some v # rest \<Rightarrow>
                if v = [] then (False, path, port) else parseArgsLoop longBits rest v port
            | _ \<Rightarrow> (False, path, port))
      else if argument = ''--port''
      then (case args of
              Some v # rest \<Rightarrow>
                if v = [] then (False, path, port)
                else (case parsePort longBits (Some v) (Some 0) of
                        (True, p) \<Rightarrow> parseArgsLoop longBits rest path p
                      | (False, p) \<Rightarrow> (False, path, port))
            | _ \<Rightarrow> (False, path, port))
      else (False, path, port))"

text \<open>Both outputs are addresses of locals of \<open>main\<close>, never null.\<close>

definition parseArgs :: "nat \<Rightarrow> string sp list \<Rightarrow> bool \<times> string \<times> uint16 option" where
  "parseArgs longBits argv =
     (case argv of
        Some argv0 # args \<Rightarrow> parseArgsLoop longBits args kDefaultHfpPath None
      | _ \<Rightarrow> (False, [], None))"

section \<open>Entry point\<close>

datatype service_action =
    PrintUsage "string sp"
  | SetControlPlanePort uint16
  | SetConfigurationPath string
  | PublishAndJoin

text \<open>\<open>published\<close>: what \<open>publishAndJoinThreadPool\<close> returns (1 when \<open>addService\<close> fails).\<close>

definition publishAndJoinThreadPool :: "bool \<Rightarrow> int" where
  "publishAndJoinThreadPool addServiceOk = (if addServiceOk then 0 else 1)"

definition service_main :: "nat \<Rightarrow> bool \<Rightarrow> string sp list \<Rightarrow> int \<times> service_action list" where
  "service_main longBits addServiceOk argv =
     (let (ok, path, port) = parseArgs longBits argv in
      if \<not> ok then (2, [PrintUsage (case argv of [] \<Rightarrow> None | a # _ \<Rightarrow> a)])
      else
        (let hfpPath = trim path in
         if hfpPath = [] then (2, [])
         else (publishAndJoinThreadPool addServiceOk,
               (case port of Some p \<Rightarrow> [SetControlPlanePort p] | None \<Rightarrow> []) @
               [SetConfigurationPath hfpPath, PublishAndJoin])))"

definition usageExecutable :: "string sp \<Rightarrow> string" where
  "usageExecutable argv0 =
     (case argv0 of
        Some a \<Rightarrow> if a \<noteq> [] then a else ''RDKCompositeInputService''
      | None \<Rightarrow> ''RDKCompositeInputService'')"

definition run_action :: "service_action \<Rightarrow> settings \<Rightarrow> settings" where
  "run_action a s =
     (case a of
        SetControlPlanePort p \<Rightarrow> setControlPlanePort p s
      | SetConfigurationPath path \<Rightarrow> setConfigurationPath path s
      | _ \<Rightarrow> s)"

section \<open>Options as data\<close>

text \<open>A command line made of valid options, and what it asks for.\<close>

datatype cli_option = HfpOption string | PortOption nat | NullArgument

fun render_option :: "cli_option \<Rightarrow> string sp list" where
  "render_option (HfpOption path) = [Some ''--hfp'', Some path]"
| "render_option (PortOption n) = [Some ''--port'', Some (show_nat n)]"
| "render_option NullArgument = [None]"

fun valid_option :: "cli_option \<Rightarrow> bool" where
  "valid_option (HfpOption path) = (path \<noteq> [])"
| "valid_option (PortOption n) = (1 \<le> n \<and> n \<le> 65535)"
| "valid_option NullArgument = True"

fun apply_option :: "cli_option \<Rightarrow> string \<times> uint16 option \<Rightarrow> string \<times> uint16 option" where
  "apply_option (HfpOption path) (old, port) = (path, port)"
| "apply_option (PortOption n) (path, old) = (path, Some (of_nat n))"
| "apply_option NullArgument s = s"

lemma parsePort_show:
  assumes "18 \<le> w"
  shows "parsePort w (Some (show_nat n)) (Some old) =
    (if 1 \<le> n \<and> n \<le> 65535 then (True, Some (of_nat n)) else (False, Some old))"
proof -
  have "(2::int) ^ 17 \<le> 2 ^ (w - 1)" using assms by (intro power_increasing) simp_all
  then have "saturate w (int n) \<le> 0 \<longleftrightarrow> n = 0" "saturate w (int n) > 65535 \<longleftrightarrow> n > 65535"
    and "n \<le> 65535 \<Longrightarrow> saturate w (int n) = int n"
    by (auto simp: saturate_def max_def min_def)
  moreover have "strtol w 10 (show_nat n) = Some (saturate w (int n), saturate w (int n) \<noteq> int n, [])"
    using strtol_show_int [of 10 w "int n"] by (simp add: show_int_def)
  ultimately show ?thesis by (auto simp: parsePort_def)
qed

lemma parsePort_value:
  "parsePort w v (Some old) = (True, r) \<Longrightarrow> \<exists>n > 0. n \<le> 65535 \<and> r = Some (word_of_int n)"
  by (fastforce simp: parsePort_def not_le split: option.splits if_splits)

lemma parsePort_range:
  assumes "parsePort w v (Some old) = (True, r)"
  shows "\<exists>p. r = Some p \<and> p \<noteq> 0"
proof -
  obtain n where n: "0 < n" "n \<le> 65535" "r = Some (word_of_int n)"
    using parsePort_value [OF assms] by blast
  then have "uint (word_of_int n :: uint16) = n"
    by (simp add: uint_word_of_int_eq take_bit_int_eq_self)
  with n show ?thesis by (auto simp del: of_int_eq_0_iff)
qed

lemma loop_option:
  assumes "18 \<le> w" and "valid_option opt"
  shows "parseArgsLoop w (render_option opt @ args) path port =
    (case apply_option opt (path, port) of (path', port') \<Rightarrow> parseArgsLoop w args path' port')"
  using assms by (cases opt) (simp_all add: parsePort_show)

lemma loop_options:
  "18 \<le> w \<Longrightarrow> list_all valid_option opts \<Longrightarrow>
   parseArgsLoop w (concat (map render_option opts)) path port =
     (True, fold apply_option opts (path, port))"
proof (induction opts arbitrary: path port)
  case (Cons opt opts)
  then show ?case
    by (cases "apply_option opt (path, port)") (simp add: loop_option)
qed simp

lemma loop_port_nonzero:
  "parseArgsLoop w args path port = (ok, path', port') \<Longrightarrow> port \<noteq> Some 0 \<Longrightarrow> port' \<noteq> Some 0"
proof (induction w args path port rule: parseArgsLoop.induct)
  case (3 w argument args path port)
  show ?case
  proof (cases "argument = ''--port''")
    case False
    with 3 show ?thesis by (auto split: if_splits list.splits option.splits)
  next
    case True
    show ?thesis
    proof (cases "\<exists>v rest p. args = Some v # rest \<and> v \<noteq> [] \<and> parsePort w (Some v) (Some 0) = (True, p)")
      case False
      with True 3(3,4) show ?thesis
        by (auto split: if_splits list.splits option.splits bool.splits prod.splits)
    next
      case pp: True
      then obtain v rest p where p: "args = Some v # rest" "v \<noteq> []"
        "parsePort w (Some v) (Some 0) = (True, p)" by blast
      with True 3(3) have "parseArgsLoop w rest path p = (ok, path', port')" by simp
      with 3(2) [OF _ _ _ p(1) refl p(2) p(3) [symmetric] refl] True parsePort_range [OF p(3)]
      show ?thesis by auto
    qed
  qed
qed auto


section \<open>Properties\<close>

text \<open>
  C39: the command line is read back as it was meant. A command line made of well-formed
  options, in any order and number, with null arguments in between, yields for each option
  the last value given, or its default; the port range 1..65535 is accepted in full and a
  port outside it ends the parse, whatever the width of \<open>long\<close>.
\<close>

theorem command_line_roundtrip:
  assumes "18 \<le> longBits" and "list_all valid_option opts"
  shows "parseArgs longBits (Some prog # concat (map render_option opts)) =
      (True, fold apply_option opts (kDefaultHfpPath, None)) \<and>
    (\<not> valid_option (PortOption n) \<longrightarrow>
      \<not> fst (parseArgs longBits (Some prog # concat (map render_option opts) @ render_option (PortOption n))))"
proof -
  have "parseArgsLoop longBits (concat (map render_option opts) @ args) path port =
      (case fold apply_option opts (path, port) of (path', port') \<Rightarrow> parseArgsLoop longBits args path' port')"
    for args path port
    using assms
  proof (induction opts arbitrary: path port)
    case (Cons opt opts)
    then show ?case
      by (cases "apply_option opt (path, port)") (simp add: loop_option)
  qed simp
  then show ?thesis
    using assms
    by (auto simp: parseArgs_def loop_options parsePort_show split: prod.splits)
qed

theorem command_line_roundtrip_witness:
  "parseArgs 64 [Some ''svc'', Some ''--port'', Some (show_nat 8090), None, Some ''--hfp'', Some ''a.yaml''] =
     (True, ''a.yaml'', Some 8090)"
  using command_line_roundtrip [of 64 "[PortOption 8090, NullArgument, HfpOption ''a.yaml'']" "''svc''" 1]
  by simp

text \<open>
  The process only goes on with usable settings. It publishes the service exactly when it
  does not exit with 2; before that it sets a nonempty path without surrounding whitespace
  and never the port 0, so the manager ends up with that path and a valid port.
\<close>

lemma service_main_spec:
  "let (code, actions) = service_main longBits addServiceOk argv;
       s = fold run_action actions initial_settings
   in (PublishAndJoin \<in> set actions \<longleftrightarrow> code \<noteq> 2) \<and>
      (code \<noteq> 2 \<longleftrightarrow> fst (parseArgs longBits argv) \<and> trim (fst (snd (parseArgs longBits argv))) \<noteq> []) \<and>
      SetControlPlanePort 0 \<notin> set actions \<and> utControlPlanePort s \<noteq> 0 \<and>
      configurationPath s =
        (if code \<noteq> 2 then trim (fst (snd (parseArgs longBits argv))) else kDefaultHfpPath)"
proof -
  obtain ok path port where r: "parseArgs longBits argv = (ok, path, port)"
    by (cases "parseArgs longBits argv") auto
  have "port \<noteq> Some 0"
    using r by (auto simp: parseArgs_def split: list.splits option.splits dest: loop_port_nonzero)
  with r show ?thesis
    by (auto simp: Let_def service_main_def publishAndJoinThreadPool_def run_action_def initial_settings_def
        setControlPlanePort_def setConfigurationPath_def split: option.split)
qed

end
