(* ===== verification/Service_Process.thy ===== *)
theory Service_Process
  imports Service Port_Typing
begin

text \<open>
  The whole service process at work. \<open>CompositeInputManager\<close> runs a worker thread next to the
  Binder threads and to the control-plane thread that fills the message queue. A process is
  the ports with their threads (\<open>Port_Interleaving\<close>), the control-plane controller with its
  queue, and the place the worker is at; every step is a step of one of these threads.
\<close>

section \<open>State\<close>

text \<open>
  \<open>pr_worker\<close>: the worker is at the head of its loop, or inside the port call of thread \<open>k\<close>.
  The last three fields record the history: the messages that arrived, those the worker took,
  and the threads in which the worker called a port.
\<close>

datatype worker = AtLoopHead | InPortCall nat

record process =
  pr_system :: system
  pr_ut :: ut_controller
  pr_stopUtWorker :: bool
  pr_worker :: worker
  pr_arrived :: "ut_message list"
  pr_taken :: "ut_message list"
  pr_utCalls :: "nat list"

definition finished :: "task \<Rightarrow> bool" where
  "finished t \<longleftrightarrow> (case t of Finished _ _ \<Rightarrow> True | _ \<Rightarrow> False)"

definition at_loop_head :: "process \<Rightarrow> bool" where
  "at_loop_head s \<longleftrightarrow>
     (case pr_worker s of
        AtLoopHead \<Rightarrow> True
      | InPortCall k \<Rightarrow> finished (snd (sys_threads (pr_system s) ! k)))"

section \<open>The worker\<close>

text \<open>
  What \<open>handleQueuedUtMessage\<close> decides before it calls the port: the document and the place of
  the target, if there are both.
\<close>

definition routeMessage :: "(string \<Rightarrow> kvp sp) \<Rightarrow> ut_message \<Rightarrow> port list \<Rightarrow> (kvp \<times> nat) option" where
  "routeMessage openMemory msg ports =
     (if fst (snd msg) = [] then None
      else case openMemory (fst (snd msg)) of
             None \<Rightarrow> None
           | Some kvp \<Rightarrow>
               (case findPort (routedPort kvp) 0 ports of None \<Rightarrow> None | Some i \<Rightarrow> Some (kvp, i)))"

lemma handle_via_route:
  "handleQueuedUtMessage gm om env msg mg =
     (case routeMessage om msg (mg_ports mg) of
        None \<Rightarrow> (mg, [])
      | Some (kvp, i) \<Rightarrow>
          (let (st, p, es) = data_section env (UtMessage gm (Some kvp)) (mg_ports mg ! i)
           in (mg\<lparr>mg_ports := (mg_ports mg)[i := p]\<rparr>, es)))"
  by (simp add: handleQueuedUtMessage_def routeMessage_def Let_def case_prod_unfold split: option.split)

text \<open>
  One turn of the loop up to the call of the port, which then runs like any other thread. An
  empty queue makes the worker sleep.
\<close>

definition workerTurn :: "get_map_value \<Rightarrow> (string \<Rightarrow> kvp sp) \<Rightarrow> process \<Rightarrow> process" where
  "workerTurn getMapValue openMemory s =
     (let (msg, ut) = getMessage (pr_ut s) in
      case msg of
        None \<Rightarrow> s
      | Some m \<Rightarrow>
          (let s1 = s\<lparr>pr_ut := ut, pr_worker := AtLoopHead, pr_taken := pr_taken s @ [m]\<rparr>
           in case routeMessage openMemory m (sys_ports (pr_system s)) of
                None \<Rightarrow> s1
              | Some (kvp, i) \<Rightarrow>
                  (let k = length (sys_threads (pr_system s))
                   in s1\<lparr>pr_system := invoke i (DataBegin (UtMessage getMapValue (Some kvp))) (pr_system s),
                         pr_worker := InPortCall k,
                         pr_utCalls := pr_utCalls s @ [k]\<rparr>)))"

definition messageArrives :: "string sp \<Rightarrow> string sp sp \<Rightarrow> process \<Rightarrow> process" where
  "messageArrives key instance s =
     s\<lparr>pr_ut := pushMessage key instance (pr_ut s),
       pr_arrived := pr_arrived s @ [make_message key instance (pr_ut s)]\<rparr>"

section \<open>Steps\<close>

definition client_entry :: "task \<Rightarrow> bool" where
  "client_entry t \<longleftrightarrow> is_entry t \<and> (\<forall>gm kvp. t \<noteq> DataBegin (UtMessage gm kvp))"

inductive process_step :: "get_map_value \<Rightarrow> (string \<Rightarrow> kvp sp) \<Rightarrow> process \<Rightarrow> process \<Rightarrow> bool"
  for gm :: get_map_value and om :: "string \<Rightarrow> kvp sp" where
  client_call: "i < length (sys_ports (pr_system s)) \<Longrightarrow> client_entry t \<Longrightarrow>
    process_step gm om s (s\<lparr>pr_system := invoke i t (pr_system s)\<rparr>)"
| thread_action: "k < length (sys_threads (pr_system s)) \<Longrightarrow>
    process_step gm om s (s\<lparr>pr_system := act env k (pr_system s)\<rparr>)"
| message_arrives: "process_step gm om s (messageArrives key instance s)"
| worker_turn: "at_loop_head s \<Longrightarrow> \<not> pr_stopUtWorker s \<Longrightarrow> process_step gm om s (workerTurn gm om s)"
| stop_worker: "process_step gm om s (s\<lparr>pr_stopUtWorker := True\<rparr>)"

inductive_cases process_stepE: "process_step gm om s s'"

section \<open>Starting the process\<close>

text \<open>The manager as constructed, with nobody calling yet.\<close>

definition started_process :: "manager \<Rightarrow> globals \<Rightarrow> process" where
  "started_process mg g =
     \<lparr>pr_system = \<lparr>sys_ports = mg_ports mg, sys_globals = g, sys_threads = [], sys_log = []\<rparr>,
      pr_ut = mg_ut mg, pr_stopUtWorker = mg_stopUtWorker mg, pr_worker = AtLoopHead,
      pr_arrived = uc_messageQueue (mg_ut mg), pr_taken = [], pr_utCalls = []\<rparr>"

text \<open>
  \<open>main\<close>: the settings the command line leaves, the manager's constructor and the publication.
  A service that cannot be added is released again, which runs the manager's destructor.
\<close>

datatype service_outcome =
    Exits int
  | Withdrawn manager "ut_effect list"
  | Serving process

definition run_service ::
  "ut_env \<Rightarrow> nat \<Rightarrow> nat \<Rightarrow> (string \<Rightarrow> kvp sp) \<Rightarrow> platform_capabilities \<Rightarrow> bool \<Rightarrow> string sp list \<Rightarrow>
   service_outcome" where
  "run_service uenv longBits bufSize openKvp caps0 addServiceOk argv =
     (let (code, actions) = service_main longBits addServiceOk argv in
      if PublishAndJoin \<notin> set actions then Exits code
      else
        (let (mg, g, es) = CompositeInputManager uenv longBits bufSize openKvp caps0
               (fold run_action actions initial_settings) initial_globals
         in if addServiceOk then Serving (started_process mg g)
            else (let (mg', es') = destroyManager mg in Withdrawn mg' (es @ es'))))"

section \<open>The ports of a process are a system of \<open>Port_Interleaving\<close>\<close>

lemma client_step: "i < length (sys_ports s) \<Longrightarrow> client_entry t \<Longrightarrow> sys_step s (invoke i t s)"
  by (simp add: client_entry_def sys_step.call)

lemma routeMessage_place: "routeMessage om m ports = Some (kvp, i) \<Longrightarrow> i < length ports"
  by (auto simp: routeMessage_def dest: findPort_some split: if_splits option.splits)

lemma workerTurn_system:
  "pr_system (workerTurn gm om s) = pr_system s \<or> sys_step (pr_system s) (pr_system (workerTurn gm om s))"
proof -
  have "sys_step t (invoke i (DataBegin (UtMessage gm (Some kvp))) t)"
    if "i < length (sys_ports t)" for i kvp t
    using that by (auto simp: is_entry_def intro: sys_step.call)
  then show ?thesis
    by (auto simp: workerTurn_def case_prod_unfold Let_def dest: routeMessage_place split: option.split)
qed

lemma process_step_system:
  "process_step gm om s s' \<Longrightarrow> sys_step\<^sup>=\<^sup>= (pr_system s) (pr_system s')"
  using workerTurn_system [of gm om s]
  by (auto elim!: process_stepE intro: sys_step.action client_step simp: messageArrives_def)

lemma process_steps_system:
  "(process_step gm om)\<^sup>*\<^sup>* s s' \<Longrightarrow> sys_step\<^sup>*\<^sup>* (pr_system s) (pr_system s')"
  by (induction rule: rtranclp_induct)
    (auto dest!: process_step_system intro: rtranclp.rtrancl_into_rtrancl)

section \<open>The order of control-plane calls\<close>

lemma finished_stays:
  "j < length (sys_threads s) \<Longrightarrow> k < length (sys_threads s) \<Longrightarrow> finished (snd (sys_threads s ! j)) \<Longrightarrow>
   finished (snd (sys_threads (act env k s) ! j))"
  by (cases "j = k"; cases "snd (sys_threads s ! k)")
    (auto simp: act_def case_prod_unfold Let_def finished_def)

lemma act_threads_place: "map fst (sys_threads (act env k s)) = map fst (sys_threads s)"
  using list_update_id [of "map fst (sys_threads s)" k]
  by (cases "k < length (sys_threads s)")
    (simp_all add: act_def case_prod_unfold Let_def map_update list_update_beyond)

lemma writeBatch_portId: "m_portId (writeBatch kvs p) = m_portId p"
  by (induction kvs arbitrary: p) (simp_all add: cacheWrite_def)

lemma micro_portId: "m_portId (fst (snd (micro env t p g))) = m_portId p"
proof (cases t)
  case (DataBegin d)
  then show ?thesis
    by (cases d)
      (auto simp: registerEventListener_def unregisterEventListener_def setPropertyFromController_def
        setPropertyMultiFromController_def writeBatch_portId resetMetricsFromController_def handle_frame
        case_prod_unfold Let_def cacheWrite_def split: option.split)
qed (auto simp: section_defs resetSession_frame case_prod_unfold Let_def split: option.split)


lemma act_port_ids:
  "map m_portId (sys_ports (act env k s)) = map m_portId (sys_ports s)"
proof -
  obtain i t where th: "sys_threads s ! k = (i, t)" by fastforce
  show ?thesis
    using list_update_id [of "map m_portId (sys_ports s)" i]
    by (cases "i < length (sys_ports s)")
      (simp_all add: act_def th case_prod_unfold Let_def map_update micro_portId list_update_beyond)
qed

text \<open>Only the IDs of the ports matter for the routing of a message.\<close>

definition target :: "(string \<Rightarrow> kvp sp) \<Rightarrow> int list \<Rightarrow> ut_message \<Rightarrow> nat option" where
  "target openMemory ids msg =
     (if fst (snd msg) = [] then None
      else case openMemory (fst (snd msg)) of
             None \<Rightarrow> None
           | Some kvp \<Rightarrow> List.find (\<lambda>i. ids ! i = routedPort kvp) [0..<length ids])"

lemma routeMessage_target:
  "map_option snd (routeMessage om msg ports) = target om (map m_portId ports) msg"
  by (auto simp: routeMessage_def target_def findPort_find option.map_comp comp_def
      option.map_ident split: option.splits)

text \<open>
  The invariant. Nothing is lost or duplicated between arrival and taking; the worker's port
  calls are the targets of the taken messages, in that order; all of them but the one the
  worker is in have returned.
\<close>

definition worker_inv :: "(string \<Rightarrow> kvp sp) \<Rightarrow> process \<Rightarrow> bool" where
  "worker_inv om s \<longleftrightarrow>
     pr_arrived s = pr_taken s @ uc_messageQueue (pr_ut s) \<and>
     (\<forall>k \<in> set (pr_utCalls s). k < length (sys_threads (pr_system s))) \<and>
     sorted_wrt (<) (pr_utCalls s) \<and>
     map (\<lambda>k. fst (sys_threads (pr_system s) ! k)) (pr_utCalls s) =
       List.map_filter (target om (map m_portId (sys_ports (pr_system s)))) (pr_taken s) \<and>
     (\<forall>k \<in> set (pr_utCalls s).
        finished (snd (sys_threads (pr_system s) ! k)) \<or> pr_worker s = InPortCall k) \<and>
     (\<forall>k. pr_worker s = InPortCall k \<longrightarrow> pr_utCalls s \<noteq> [] \<and> k = last (pr_utCalls s))"

lemma worker_inv_started: "worker_inv om (started_process mg g)"
  by (simp add: worker_inv_def started_process_def)

lemma worker_inv_call:
  "worker_inv om s \<Longrightarrow> worker_inv om (s\<lparr>pr_system := invoke i t (pr_system s)\<rparr>)"
  by (auto simp: worker_inv_def invoke_def nth_append cong: map_cong)

lemma worker_inv_act:
  assumes "worker_inv om s" and k: "k < length (sys_threads (pr_system s))"
  shows "worker_inv om (s\<lparr>pr_system := act env k (pr_system s)\<rparr>)"
proof -
  let ?t = "sys_threads (pr_system s)" and ?t' = "sys_threads (act env k (pr_system s))"
  have place: "fst (?t' ! j) = fst (?t ! j)" if "j < length ?t" for j
    using that arg_cong [OF act_threads_place [of env k "pr_system s"], of "\<lambda>xs. xs ! j"]
    by (simp add: act_threads)
  show ?thesis
    using assms finished_stays [of _ "pr_system s" k env] place
    by (auto simp: worker_inv_def act_threads act_port_ids cong: map_cong)
qed

lemma worker_inv_arrives: "worker_inv om s \<Longrightarrow> worker_inv om (messageArrives key inst s)"
  by (simp add: worker_inv_def messageArrives_def pushMessage_def)


lemma worker_inv_turn:
  assumes inv: "worker_inv om s" and head: "at_loop_head s"
  shows "worker_inv om (workerTurn gm om s)"
proof -
  let ?t = "sys_threads (pr_system s)"
  have served: "\<forall>k \<in> set (pr_utCalls s). finished (snd (?t ! k))"
    using inv head by (auto simp: worker_inv_def at_loop_head_def split: worker.splits)
  show ?thesis
  proof (cases "uc_messageQueue (pr_ut s)")
    case Nil
    then show ?thesis using inv by (simp add: workerTurn_def getMessage_def)
  next
    case (Cons m ms)
    note turn = workerTurn_def [of gm om s, unfolded getMessage_def Cons, simplified]
    show ?thesis
    proof (cases "routeMessage om m (sys_ports (pr_system s))")
      case None
      then have "target om (map m_portId (sys_ports (pr_system s))) m = None"
        using routeMessage_target [of om m "sys_ports (pr_system s)"] by simp
      with inv None Cons served show ?thesis
        by (simp add: turn worker_inv_def List.map_filter_def)
    next
      case (Some r)
      obtain kvp i where r: "r = (kvp, i)" by fastforce
      have "target om (map m_portId (sys_ports (pr_system s))) m = Some i"
        using routeMessage_target [of om m "sys_ports (pr_system s)"] Some r by simp
      with inv Some r Cons served show ?thesis
        by (auto simp: turn worker_inv_def Let_def List.map_filter_def invoke_def nth_append sorted_wrt_append
            cong: map_cong)
    qed
  qed
qed

lemma worker_inv_step: "worker_inv om s \<Longrightarrow> process_step gm om s s' \<Longrightarrow> worker_inv om s'"
  by (auto elim!: process_stepE intro: worker_inv_call worker_inv_act worker_inv_arrives worker_inv_turn)
    (simp add: worker_inv_def)

interpretation worker: transition_system
  "\<lambda>s. \<exists>mg g. s = started_process mg g" "process_step gm om" "worker_inv om" for gm om
  by unfold_locales (auto simp: worker_inv_started worker_inv_step)


section \<open>From the command line to the ports\<close>

definition profile_ports :: "hfp_config \<Rightarrow> (int \<times> string \<times> string \<times> port_capabilities) list" where
  "profile_ports c = map (\<lambda>p. (cp_id p, cp_name p, cp_description p, mapPortCapabilities p)) (hc_ports c)"

text \<open>A constructed manager is a booted system: of the profile, or of no ports at all.\<close>

lemma constructed_booted:
  assumes "CompositeInputManager uenv longBits bufSize openKvp caps0 st initial_globals = (mg, g, es)"
  shows "(\<exists>c. wf_config c \<and>
       pr_system (started_process mg g) = boot_system (hc_maximumConcurrentStartedPorts c) (profile_ports c)) \<or>
     pr_system (started_process mg g) = boot_system 1 []"
proof -
  obtain ok ut es' where i: "ut_controller_init uenv (utControlPlanePort st) None
      (mg_ut (blank_manager caps0)) = (ok, ut, es')"
    by (cases "ut_controller_init uenv (utControlPlanePort st) None (mg_ut (blank_manager caps0))") auto
  show ?thesis
  proof (cases longBits bufSize openKvp "configurationPath st" "(blank_manager caps0)\<lparr>mg_ut := ut\<rparr>"
      initial_globals rule: load_cases)
    case failed
    have "setMaxConcurrentStartedPorts 1 initial_globals = initial_globals"
      by (simp add: setMaxConcurrentStartedPorts_def initial_globals_def)
    with assms i failed show ?thesis
      by (auto simp: CompositeInputManager_def blank_manager_def started_process_def boot_system_def)
  next
    case (loaded c)
    have "map configured_port (hc_ports c) = map boot_port (profile_ports c)"
      by (simp add: profile_ports_def configured_port_def)
    with assms i loaded show ?thesis
      by (auto simp: CompositeInputManager_def started_process_def boot_system_def intro!: exI [of _ c])
  qed
qed

lemma serving_started:
  assumes "run_service uenv longBits bufSize openKvp caps0 addServiceOk argv = Serving s"
  obtains mg g es st where
    "CompositeInputManager uenv longBits bufSize openKvp caps0 st initial_globals = (mg, g, es)"
    "s = started_process mg g"
proof -
  let ?m = "CompositeInputManager uenv longBits bufSize openKvp caps0
    (fold run_action (snd (service_main longBits addServiceOk argv)) initial_settings) initial_globals"
  have "s = started_process (fst ?m) (fst (snd ?m))"
    using assms by (auto simp: run_service_def case_prod_unfold Let_def split: if_splits)
  then show ?thesis
    using that [of _ "fst ?m" "fst (snd ?m)" "snd (snd ?m)"] by simp
qed

lemma act_steps_port_ids:
  "sys_step\<^sup>*\<^sup>* s t \<Longrightarrow> map m_portId (sys_ports t) = map m_portId (sys_ports s)"
  by (induction rule: rtranclp_induct) (auto elim!: sys_stepE simp: act_port_ids invoke_def)

lemma profile_port_ids: "map m_portId (sys_ports (boot_system limit (profile_ports c))) = map cp_id (hc_ports c)"
  by (simp add: boot_system_def profile_ports_def comp_def)

section \<open>A service without options\<close>

lemma default_main:
  "service_main longBits published [Some argv0] =
     (publishAndJoinThreadPool published, [SetConfigurationPath kDefaultHfpPath, PublishAndJoin])"
proof -
  have "trim kDefaultHfpPath = kDefaultHfpPath" "kDefaultHfpPath \<noteq> []"
    by (simp_all add: kDefaultHfpPath_def trim_no_space isspace_def)
  then show ?thesis by (simp add: service_main_def parseArgs_def)
qed

lemma default_settings:
  "run_action PublishAndJoin (run_action (SetConfigurationPath kDefaultHfpPath) initial_settings) =
     initial_settings"
  "configurationPath initial_settings = kDefaultHfpPath" "kDefaultHfpPath \<noteq> []"
  by (simp_all add: run_action_def setConfigurationPath_def initial_settings_def kDefaultHfpPath_def)

lemma default_service:
  assumes "openKvp kDefaultHfpPath = Some kvp" and "represents bufSize kvp c" and "wf_config c"
    and "32 \<le> longBits"
  shows "\<exists>s0. run_service uenv longBits bufSize openKvp caps0 True [Some argv0] = Serving s0 \<and>
    pr_system s0 = boot_system (hc_maximumConcurrentStartedPorts c) (profile_ports c)"
proof -
  have parse: "loadHfpConfig longBits bufSize openKvp kDefaultHfpPath
      (Some default_hfp_config) (Some []) = (True, Some c, Some [])"
    using read_represented [OF assms(2-4)] assms(1)
    by (simp add: loadHfpConfig_def parseConfig_def kvpCreateInstance_def default_settings)
  have limit: "1 \<le> hc_maximumConcurrentStartedPorts c"
    using assms(3) by (simp add: wf_config_def)
  have ports: "buildPorts [] (hc_ports c) = map boot_port (profile_ports c)" "profile_ports c \<noteq> []"
    using assms(3) buildPorts_wf [of "hc_ports c" "[]"]
    by (simp_all add: wf_config_def profile_ports_def configured_port_def)
  let ?r = "run_service uenv longBits bufSize openKvp caps0 True [Some argv0]"
  obtain s0 where s0: "?r = Serving s0"
    by (simp add: run_service_def default_main case_prod_unfold Let_def)
  moreover have "pr_system s0 = boot_system (hc_maximumConcurrentStartedPorts c) (profile_ports c)"
    using s0 parse ports limit
    by (auto simp: run_service_def default_main default_settings CompositeInputManager_def started_process_def
        loadCapabilitiesFromConfig_def platformCapabilitiesFor_def boot_system_def case_prod_unfold Let_def)
  ultimately show ?thesis by blast
qed

section \<open>The profile behind a serving process\<close>

lemma boot_system_caps: "map m_capabilities (sys_ports (boot_system limit (profile_ports c))) =
    map mapPortCapabilities (hc_ports c)"
  by (simp add: boot_system_def profile_ports_def comp_def)

lemma serving_arguments:
  assumes "run_service uenv longBits bufSize openKvp caps0 addServiceOk argv = Serving s"
  shows "\<exists>path port mg g es st. parseArgs longBits argv = (True, path, port) \<and> configurationPath st = trim path \<and>
    trim path \<noteq> [] \<and>
    CompositeInputManager uenv longBits bufSize openKvp caps0 st initial_globals = (mg, g, es) \<and>
    s = started_process mg g"
proof -
  obtain ok path port where args: "parseArgs longBits argv = (ok, path, port)" by (cases "parseArgs longBits argv") auto
  let ?st = "fold run_action (snd (service_main longBits addServiceOk argv)) initial_settings"
  have "PublishAndJoin \<in> set (snd (service_main longBits addServiceOk argv))"
    using assms by (auto simp: run_service_def case_prod_unfold Let_def split: if_splits)
  then have "ok" "trim path \<noteq> []"
    by (auto simp: service_main_def args Let_def split: if_splits)
  then have path: "configurationPath ?st = trim path"
    by (auto simp: service_main_def args Let_def run_action_def setConfigurationPath_def split: option.split)
  obtain mg g es where m: "CompositeInputManager uenv longBits bufSize openKvp caps0 ?st initial_globals = (mg, g, es)"
    by (cases "CompositeInputManager uenv longBits bufSize openKvp caps0 ?st initial_globals") auto
  have "s = started_process mg g"
    using assms m by (auto simp: run_service_def case_prod_unfold Let_def split: if_splits)
  with path m \<open>ok\<close> \<open>trim path \<noteq> []\<close> show ?thesis
    by (intro exI [of _ path] exI [of _ port] exI [of _ mg] exI [of _ g] exI [of _ es] exI [of _ ?st])
      (simp add: args)
qed

lemma constructed_from_profile:
  assumes "CompositeInputManager uenv longBits bufSize openKvp caps0 st initial_globals = (mg, g, es)"
    and "configurationPath st = path" and "path \<noteq> []"
  shows "case parseConfig longBits bufSize openKvp (Some path) (Some []) of (loaded, c, err) \<Rightarrow>
    if loaded
    then wf_config c \<and> pr_system (started_process mg g) = boot_system (hc_maximumConcurrentStartedPorts c) (profile_ports c)
    else pr_system (started_process mg g) = boot_system 1 []"
proof -
  obtain loaded c err where parse: "parseConfig longBits bufSize openKvp (Some path) (Some []) = (loaded, c, err)"
    by (cases "parseConfig longBits bufSize openKvp (Some path) (Some [])") auto
  then have load: "loadHfpConfig longBits bufSize openKvp path (Some default_hfp_config) (Some []) = (loaded, Some c, err)"
    using assms(3) by (simp add: loadHfpConfig_def)
  show ?thesis
  proof (cases loaded)
    case True
    then have wf: "wf_config c"
      using parseConfig_sound [where w = longBits and b = bufSize and openKvp = openKvp and configFile = "Some path"
        and outError = "Some []"] parse by simp
    then have ports: "buildPorts [] (hc_ports c) = map boot_port (profile_ports c)" "profile_ports c \<noteq> []"
      and limit: "1 \<le> hc_maximumConcurrentStartedPorts c"
      using buildPorts_wf [of "hc_ports c" "[]"] by (simp_all add: wf_config_def profile_ports_def configured_port_def)
    from assms load ports limit True have
      "pr_system (started_process mg g) = boot_system (hc_maximumConcurrentStartedPorts c) (profile_ports c)"
      by (auto simp: CompositeInputManager_def started_process_def loadCapabilitiesFromConfig_def
          platformCapabilitiesFor_def boot_system_def case_prod_unfold Let_def)
    with wf True show ?thesis by (simp add: parse)
  next
    case False
    have "setMaxConcurrentStartedPorts 1 initial_globals = initial_globals"
      by (simp add: setMaxConcurrentStartedPorts_def initial_globals_def)
    with assms load False show ?thesis
      by (auto simp: parse CompositeInputManager_def blank_manager_def started_process_def boot_system_def
          loadCapabilitiesFromConfig_def case_prod_unfold Let_def)
  qed
qed

section \<open>Properties\<close>

text \<open>
  C1: the service serves the profile it was given. Whatever the command line, a process that
  serves has parsed its arguments, and the profile at the path they name decides its ports. If
  the parser accepts that profile, then at every moment, whatever clients, the control plane and
  the worker have done, the ports have the IDs and the capabilities the profile declares, in its
  order, the ports that are being started, started or being stopped never exceed the limit it
  declares, and the whole is a reachable state of the interleaved system booted from it. If the
  parser rejects it, the process serves no port.
\<close>

theorem service_respects_profile:
  assumes "run_service uenv longBits bufSize openKvp caps0 addServiceOk argv = Serving s0"
    and "(process_step gm om)\<^sup>*\<^sup>* s0 s"
  shows "case parseArgs longBits argv of (ok, path, port) \<Rightarrow> ok \<and>
    (case parseConfig longBits bufSize openKvp (Some (trim path)) (Some []) of (loaded, c, err) \<Rightarrow>
       if loaded
       then wf_config c \<and>
         map m_portId (sys_ports (pr_system s)) = map cp_id (hc_ports c) \<and>
         map m_capabilities (sys_ports (pr_system s)) = map mapPortCapabilities (hc_ports c) \<and>
         cnt (started_phase \<circ> m_state) (sys_ports (pr_system s)) \<le> hc_maximumConcurrentStartedPorts c \<and>
         sys_step\<^sup>*\<^sup>* (boot_system (hc_maximumConcurrentStartedPorts c) (profile_ports c)) (pr_system s)
       else sys_ports (pr_system s) = [])"
proof -
  obtain path port mg g es st where st: "parseArgs longBits argv = (True, path, port)"
    "configurationPath st = trim path" "trim path \<noteq> []"
    "CompositeInputManager uenv longBits bufSize openKvp caps0 st initial_globals = (mg, g, es)"
    "s0 = started_process mg g"
    using serving_arguments [OF assms(1)] by blast
  note steps = process_steps_system [OF assms(2)]
  note profile = constructed_from_profile [OF st(4,2,3), folded st(5)]
  obtain loaded c err where parse: "parseConfig longBits bufSize openKvp (Some (trim path)) (Some []) = (loaded, c, err)"
    by (cases "parseConfig longBits bufSize openKvp (Some (trim path)) (Some [])") auto
  show ?thesis
  proof (cases loaded)
    case False
    then have "map m_portId (sys_ports (pr_system s)) = []"
      using act_steps_port_ids [OF steps] profile parse by (simp add: boot_system_def)
    with False show ?thesis by (simp add: st(1) parse)
  next
    case True
    then have c: "wf_config c" "pr_system s0 = boot_system (hc_maximumConcurrentStartedPorts c) (profile_ports c)"
      using profile parse by simp_all
    note r = steps [unfolded c(2)]
    have "cnt (started_phase \<circ> m_state) (sys_ports (pr_system s)) \<le> max 1 (hc_maximumConcurrentStartedPorts c)"
      using reachable(2) [OF r] sys_invD(5,6) [OF reachable(1) [OF r]]
        cnt_nonneg [of "holds_slot \<circ> snd" "sys_threads (pr_system s)"] by linarith
    moreover have "1 \<le> hc_maximumConcurrentStartedPorts c"
      using c(1) by (simp add: wf_config_def)
    moreover have "map m_portId (sys_ports (pr_system s)) = map cp_id (hc_ports c)"
      using act_steps_port_ids [OF r] by (simp only: profile_port_ids)
    moreover have "map m_capabilities (sys_ports (pr_system s)) = map mapPortCapabilities (hc_ports c)"
      using act_steps_capabilities [OF r] by (simp only: boot_system_caps)
    ultimately show ?thesis
      using c(1) r True by (simp add: st(1) parse)
  qed
qed

text \<open>An environment whose control plane comes up, and a default-constructed capabilities value.\<close>

definition demo_ut_env :: ut_env where
  "demo_ut_env = \<lparr>ut_init = (\<lambda>port. Some 7), ut_registerOk = (\<lambda>h key. True)\<rparr>"

definition demo_caps :: platform_capabilities where
  "demo_caps = platformCapabilitiesFor default_hfp_config 0"

theorem service_respects_profile_witness:
  "\<exists>s0. run_service demo_ut_env 64 256 (\<lambda>path. Some (table_kvp demo_fields demo_lists)) demo_caps True
       [Some ''svc''] = Serving s0 \<and>
     map m_portId (sys_ports (pr_system s0)) = map cp_id (hc_ports demo_config)"
proof -
  let ?o = "\<lambda>path. Some (table_kvp demo_fields demo_lists)"
  obtain s0 where s0: "run_service demo_ut_env 64 256 ?o demo_caps True [Some ''svc''] = Serving s0"
    using default_service [of ?o _ 256 demo_config 64 demo_ut_env demo_caps "''svc''"] demo_represents demo_wf
    by auto
  have "parseArgs 64 [Some ''svc''] = (True, kDefaultHfpPath, None)" by (simp add: parseArgs_def)
  moreover have "trim kDefaultHfpPath = kDefaultHfpPath"
    by (simp add: kDefaultHfpPath_def trim_no_space isspace_def)
  moreover have "parseConfig 64 256 ?o (Some kDefaultHfpPath) (Some []) = (True, demo_config, Some [])"
    using read_represented [OF demo_represents demo_wf, of 64]
    by (simp add: parseConfig_def kvpCreateInstance_def default_settings)
  ultimately show ?thesis
    using s0 service_respects_profile [where gm = scan_map and om = "\<lambda>p. None", OF s0 rtranclp.rtrancl_refl]
    by simp
qed





text \<open>
  C28: a service that cannot be published leaves nothing behind: its worker is told to stop, the
  control plane it started is exited, and no message is kept.
\<close>

theorem failed_publication_releases_everything:
  assumes "run_service uenv longBits bufSize openKvp caps0 addServiceOk argv = Withdrawn mg es"
  shows "mg_stopUtWorker mg \<and> \<not> isRunning (mg_ut mg) \<and> uc_messageQueue (mg_ut mg) = [] \<and>
    (\<forall>h. count_list es (ControlPlaneStart h) \<le> count_list es (ControlPlaneExit h))"
proof -
  let ?st = "fold run_action (snd (service_main longBits addServiceOk argv)) initial_settings"
  obtain m g e where m: "CompositeInputManager uenv longBits bufSize openKvp caps0 ?st initial_globals = (m, g, e)"
    by (cases "CompositeInputManager uenv longBits bufSize openKvp caps0 ?st initial_globals") auto
  then have r: "mg = fst (destroyManager m)" "es = e @ snd (destroyManager m)"
    using assms by (auto simp: run_service_def case_prod_unfold Let_def split: if_splits)
  obtain ok ut e' where i: "ut_controller_init uenv (utControlPlanePort ?st) None initial_ut_controller = (ok, ut, e')"
    by (cases "ut_controller_init uenv (utControlPlanePort ?st) None initial_ut_controller") auto
  have ut: "mg_ut m = ut" "e = e'"
    using m i
    by (cases longBits bufSize openKvp "configurationPath ?st" "(blank_manager caps0)\<lparr>mg_ut := ut\<rparr>"
        initial_globals rule: load_cases; auto simp: CompositeInputManager_def blank_manager_def)+
  have "count_list e (ControlPlaneStart h) \<le> of_bool (uc_controlPlaneInstance ut = Some h)" for h
    using i ut(2) by (auto simp: ut_controller_init_def initial_ut_controller_def split: option.splits if_splits)
  then have "count_list es (ControlPlaneStart h) \<le> count_list es (ControlPlaneExit h)" for h
    using r(2) ut(1) le_trans
    by (fastforce simp: destroyManager_def ut_controller_shutdown_def of_bool_def split: option.split if_splits)
  then show ?thesis
    using r(1) by (simp add: destroyManager_def ut_controller_shutdown_def isRunning_def case_prod_unfold Let_def)
qed


theorem failed_publication_releases_everything_witness:
  "\<exists>mg es. run_service demo_ut_env 64 256 (\<lambda>path. None) demo_caps False [Some ''svc''] = Withdrawn mg es \<and>
     ControlPlaneStart 7 \<in> set es \<and> \<not> isRunning (mg_ut mg) \<and>
     count_list es (ControlPlaneStart 7) \<le> count_list es (ControlPlaneExit 7)"
proof -
  let ?r = "run_service demo_ut_env 64 256 (\<lambda>path. None) demo_caps False [Some ''svc'']"
  obtain mg es where r: "?r = Withdrawn mg es"
    by (simp add: run_service_def default_main case_prod_unfold Let_def)
  moreover have "ControlPlaneStart 7 \<in> set es"
    using r by (auto simp: run_service_def default_main CompositeInputManager_def blank_manager_def
        ut_controller_init_def initial_ut_controller_def demo_ut_env_def case_prod_unfold Let_def)
  ultimately show ?thesis
    using failed_publication_releases_everything [OF r] by blast
qed

end
