(* ===== verification/Service_Liveness.thy ===== *)
theory Service_Liveness
  imports Service_Process "HOL-Library.Countable"
begin

text \<open>
  What the service process eventually does. A scheduler picks, again and again, one of the
  threads; when it neglects none of them for ever, every port call returns and every message
  of the control plane is taken by the worker and served, whatever else happens in between.
\<close>

section \<open>Variants along an infinite run\<close>

text \<open>The states a sequence of picked actions leads through.\<close>

primrec picked_run :: "('a \<Rightarrow> 's \<Rightarrow> 's) \<Rightarrow> 's \<Rightarrow> (nat \<Rightarrow> 'a) \<Rightarrow> nat \<Rightarrow> 's" where
  "picked_run step s0 picks 0 = s0"
| "picked_run step s0 picks (Suc n) = step (picks n) (picked_run step s0 picks n)"

text \<open>
  The one argument about fairness: a variant that no action raises and that the helpful actions
  lower becomes zero and stays zero, when helpful actions are picked again and again.
\<close>

locale variant_descent =
  fixes step :: "'a \<Rightarrow> 's \<Rightarrow> 's" and alive :: "'s \<Rightarrow> bool" and variant :: "'s \<Rightarrow> nat" and helps :: "'a \<Rightarrow> bool"
  assumes alive_step: "alive s \<Longrightarrow> alive (step a s)"
    and never_raised: "alive s \<Longrightarrow> variant (step a s) \<le> variant s"
    and lowered: "alive s \<Longrightarrow> helps a \<Longrightarrow> 0 < variant s \<Longrightarrow> variant (step a s) < variant s"
begin

lemma descending:
  assumes "n \<le> m" and "alive (picked_run step s0 picks n)"
  shows "alive (picked_run step s0 picks m) \<and>
    variant (picked_run step s0 picks m) \<le> variant (picked_run step s0 picks n)"
  using assms(1)
proof (induction m rule: dec_induct)
  case (step m)
  then show ?case
    using alive_step never_raised [of "picked_run step s0 picks m" "picks m"] by auto
qed (simp add: assms(2))

lemma reaches_zero:
  assumes "\<forall>n. \<exists>m \<ge> n. helps (picks m)"
  shows "alive (picked_run step s0 picks n) \<Longrightarrow> \<exists>m \<ge> n. variant (picked_run step s0 picks m) = 0"
proof (induction "variant (picked_run step s0 picks n)" arbitrary: n rule: less_induct)
  case less
  obtain m where m: "n \<le> m" "helps (picks m)" using assms by blast
  note d = descending [OF m(1) less.prems]
  show ?case
  proof (cases "variant (picked_run step s0 picks m) = 0")
    case False
    then have "variant (picked_run step s0 picks (Suc m)) < variant (picked_run step s0 picks n)"
      using lowered [of "picked_run step s0 picks m" "picks m"] d m by simp
    moreover have "alive (picked_run step s0 picks (Suc m))" using d alive_step by simp
    ultimately obtain m' where "Suc m \<le> m'" "variant (picked_run step s0 picks m') = 0"
      using less.hyps by blast
    with m(1) show ?thesis by (intro exI [of _ m']) simp
  qed (use m in blast)
qed

lemma stays_zero:
  assumes "\<forall>n. \<exists>m \<ge> n. helps (picks m)" and "alive (picked_run step s0 picks n)"
  shows "\<exists>m \<ge> n. \<forall>m' \<ge> m. variant (picked_run step s0 picks m') = 0"
proof -
  obtain m where m: "n \<le> m" "variant (picked_run step s0 picks m) = 0"
    using reaches_zero assms by blast
  have "alive (picked_run step s0 picks m)" using descending [OF m(1) assms(2)] by simp
  then show ?thesis using m descending [of m] by (metis le_zero_eq)
qed

end

section \<open>Runs of the process\<close>

text \<open>
  What the scheduler can pick. A pick that is not possible (a call on an unknown port, the
  worker inside a port call or told to stop) changes nothing.
\<close>

datatype process_action =
    ClientCalls nat task
  | ThreadRuns nat binder_env
  | MessageIn "string sp" "string sp sp"
  | WorkerRuns
  | StopRequested

primrec perform :: "get_map_value \<Rightarrow> (string \<Rightarrow> kvp sp) \<Rightarrow> process_action \<Rightarrow> process \<Rightarrow> process" where
  "perform gm om (ClientCalls i t) s =
     (if i < length (sys_ports (pr_system s)) \<and> client_entry t
      then s\<lparr>pr_system := invoke i t (pr_system s)\<rparr> else s)"
| "perform gm om (ThreadRuns k env) s =
     (if k < length (sys_threads (pr_system s)) then s\<lparr>pr_system := act env k (pr_system s)\<rparr> else s)"
| "perform gm om (MessageIn key instance) s = messageArrives key instance s"
| "perform gm om WorkerRuns s =
     (if at_loop_head s \<and> \<not> pr_stopUtWorker s then workerTurn gm om s else s)"
| "perform gm om StopRequested s = s\<lparr>pr_stopUtWorker := True\<rparr>"

definition process_run ::
  "get_map_value \<Rightarrow> (string \<Rightarrow> kvp sp) \<Rightarrow> process \<Rightarrow> (nat \<Rightarrow> process_action) \<Rightarrow> nat \<Rightarrow> process" where
  "process_run gm om = picked_run (perform gm om)"

lemma process_run_Suc:
  "process_run gm om s0 picks (Suc n) = perform gm om (picks n) (process_run gm om s0 picks n)"
  by (simp add: process_run_def)

definition fair :: "(nat \<Rightarrow> process_action) \<Rightarrow> bool" where
  "fair picks \<longleftrightarrow>
     (\<forall>n. \<exists>m \<ge> n. picks m = WorkerRuns) \<and> (\<forall>k n. \<exists>m \<ge> n. \<exists>env. picks m = ThreadRuns k env)"

lemma perform_step: "(process_step gm om)\<^sup>=\<^sup>= s (perform gm om a s)"
  by (cases a) (auto intro: process_step.intros)

lemma run_reachable: "(process_step gm om)\<^sup>*\<^sup>* s0 (process_run gm om s0 picks n)"
proof (induction n)
  case (Suc n)
  then show ?case
    using perform_step [of gm om "process_run gm om s0 picks n" "picks n"]
    by (auto simp: process_run_Suc intro: rtranclp.rtrancl_into_rtrancl)
qed (simp add: process_run_def)

section \<open>What one step changes\<close>

definition left :: "nat \<Rightarrow> process \<Rightarrow> nat" where
  "left k s = remaining (snd (sys_threads (pr_system s) ! k))"

lemma finished_left: "finished (snd (sys_threads (pr_system s) ! k)) \<longleftrightarrow> left k s = 0"
  by (auto simp: left_def finished_def remaining_zero split: task.split)

lemma micro_left: "remaining (fst (micro env t p g)) \<le> remaining t"
  using micro_remaining [of t env p g] by (cases "\<exists>st ret. t = Finished st ret") auto

lemma micro_lower: "0 < remaining t \<Longrightarrow> remaining (fst (micro env t p g)) < remaining t"
  using micro_remaining [of t env p g] by (cases "\<exists>st ret. t = Finished st ret") auto

lemma workerTurn_threads:
  "sys_threads (pr_system (workerTurn gm om s)) = sys_threads (pr_system s) \<or>
   (\<exists>th. sys_threads (pr_system (workerTurn gm om s)) = sys_threads (pr_system s) @ [th])"
  by (auto simp: workerTurn_def invoke_def case_prod_unfold Let_def split: option.split)

lemma threads_grow:
  "k < length (sys_threads (pr_system s)) \<Longrightarrow> k < length (sys_threads (pr_system (perform gm om a s)))"
  using workerTurn_threads [of gm om s]
  by (cases a) (auto simp: invoke_def act_threads messageArrives_def)

lemma act_left:
  "k < length (sys_threads (pr_system s)) \<Longrightarrow>
   left k (s\<lparr>pr_system := act env j (pr_system s)\<rparr>) \<le> left k s \<and>
   (j = k \<and> 0 < left k s \<longrightarrow> left k (s\<lparr>pr_system := act env j (pr_system s)\<rparr>) < left k s)"
  using micro_left micro_lower
  by (cases "j = k") (auto simp: left_def act_def case_prod_unfold Let_def)

lemma left_step:
  "k < length (sys_threads (pr_system s)) \<Longrightarrow> left k (perform gm om a s) \<le> left k s"
  using workerTurn_threads [of gm om s] act_left [of k s]
  by (cases a) (auto simp: left_def invoke_def nth_append messageArrives_def)

lemma left_progress:
  "k < length (sys_threads (pr_system s)) \<Longrightarrow> 0 < left k s \<Longrightarrow>
   left k (perform gm om (ThreadRuns k env) s) < left k s"
  using act_left [of k s env k] by simp

interpretation thread: variant_descent
  "perform gm om" "\<lambda>s. k < length (sys_threads (pr_system s))" "left k" "\<lambda>a. \<exists>env. a = ThreadRuns k env"
  for gm om k
  using left_progress by unfold_locales (auto simp: threads_grow left_step)

lemma thread_finishes:
  assumes "fair picks" and "k < length (sys_threads (pr_system (process_run gm om s0 picks n)))"
  shows "\<exists>m \<ge> n. \<forall>m' \<ge> m. finished (snd (sys_threads (pr_system (process_run gm om s0 picks m')) ! k))"
  using assms thread.stays_zero [where k = k and picks = picks and gm = gm and om = om and ?s0.0 = s0 and n = n]
  by (simp add: finished_left process_run_def fair_def)

section \<open>The worker\<close>

lemma idle_pick:
  "a \<noteq> WorkerRuns \<or> \<not> at_loop_head s \<or> pr_stopUtWorker s \<Longrightarrow>
   pr_worker (perform gm om a s) = pr_worker s \<and> pr_taken (perform gm om a s) = pr_taken s"
  by (cases a) (auto simp: messageArrives_def)

lemma turn_grows:
  "\<exists>ms. pr_taken (perform gm om a s) = pr_taken s @ ms"
  "\<exists>ms. pr_arrived (perform gm om a s) = pr_arrived s @ ms"
  by (cases a; auto simp: messageArrives_def workerTurn_def case_prod_unfold Let_def split: option.split)+

lemma turn_takes:
  "uc_messageQueue (pr_ut s) \<noteq> [] \<Longrightarrow> length (pr_taken (workerTurn gm om s)) = Suc (length (pr_taken s))"
  by (cases "uc_messageQueue (pr_ut s)")
    (auto simp: workerTurn_def getMessage_def case_prod_unfold Let_def split: option.split)

lemma stop_stays: "pr_stopUtWorker s \<Longrightarrow> pr_stopUtWorker (perform gm om a s)"
  by (cases a) (auto simp: messageArrives_def workerTurn_def case_prod_unfold Let_def split: option.split)

lemma head_stays:
  assumes "worker_inv om s" and "at_loop_head s" and "a \<noteq> WorkerRuns \<or> pr_stopUtWorker s"
  shows "at_loop_head (perform gm om a s)"
proof (cases "pr_worker s")
  case AtLoopHead
  then show ?thesis using idle_pick [of a s gm om] assms(3) by (auto simp: at_loop_head_def)
next
  case (InPortCall k)
  then have "pr_utCalls s \<noteq> []" "k = last (pr_utCalls s)"
    using assms(1) by (simp_all add: worker_inv_def)
  then have k: "k < length (sys_threads (pr_system s))"
    using assms(1) by (simp add: worker_inv_def)
  have "left k s = 0" using assms(2) InPortCall by (simp add: at_loop_head_def finished_left)
  then have "left k (perform gm om a s) = 0" using left_step [OF k, of gm om a] by simp
  then show ?thesis
    using idle_pick [of a s gm om] assms(3) InPortCall by (simp add: at_loop_head_def finished_left)
qed

text \<open>All of it along a fair run from a freshly started process.\<close>

definition fair_run ::
  "get_map_value \<Rightarrow> (string \<Rightarrow> kvp sp) \<Rightarrow> (nat \<Rightarrow> process_action) \<Rightarrow> (nat \<Rightarrow> process) \<Rightarrow> bool" where
  "fair_run gm om picks run \<longleftrightarrow>
     fair picks \<and> (\<exists>mg g. run = process_run gm om (started_process mg g) picks)"

lemma fair_run_Suc: "fair_run gm om picks run \<Longrightarrow> run (Suc n) = perform gm om (picks n) (run n)"
  by (auto simp: fair_run_def process_run_Suc)

lemma fair_run_inv: "fair_run gm om picks run \<Longrightarrow> worker_inv om (run n)"
  using worker.reachable_inv run_reachable by (fastforce simp: fair_run_def)

lemma fair_run_finishes:
  "fair_run gm om picks run \<Longrightarrow> k < length (sys_threads (pr_system (run n))) \<Longrightarrow>
   \<exists>m \<ge> n. \<forall>m' \<ge> m. finished (snd (sys_threads (pr_system (run m')) ! k))"
  using thread_finishes by (auto simp: fair_run_def)

lemma fair_run_grows:
  assumes "fair_run gm om picks run" and "n \<le> m"
  shows "\<exists>ms. pr_taken (run m) = pr_taken (run n) @ ms" and "\<exists>ms. pr_arrived (run m) = pr_arrived (run n) @ ms"
  using assms(2) turn_grows fair_run_Suc [OF assms(1)]
  by (induction m rule: dec_induct) (simp_all, metis append_assoc, metis append_assoc)

lemma worker_returns:
  assumes run: "fair_run gm om picks run"
  shows "\<exists>m \<ge> n. at_loop_head (run m)"
proof (rule ccontr)
  assume "\<not> ?thesis"
  then have busy: "\<not> at_loop_head (run m)" if "n \<le> m" for m using that by blast
  then obtain k where k: "pr_worker (run n) = InPortCall k"
    using busy [of n] by (cases "pr_worker (run n)") (simp_all add: at_loop_head_def)
  have same: "pr_worker (run m) = InPortCall k" if "n \<le> m" for m
    using that
  proof (induction m rule: dec_induct)
    case (step m)
    then show ?case using idle_pick [of "picks m" "run m" gm om] busy fair_run_Suc [OF run] by simp
  qed (rule k)
  have "k < length (sys_threads (pr_system (run n)))"
    using fair_run_inv [OF run, of n] k by (simp add: worker_inv_def)
  then obtain m where "n \<le> m" "finished (snd (sys_threads (pr_system (run m)) ! k))"
    using fair_run_finishes [OF run] by blast
  then show False using same busy by (simp add: at_loop_head_def)
qed

lemma worker_gets_turn:
  assumes run: "fair_run gm om picks run"
  shows "\<exists>m \<ge> n. at_loop_head (run m) \<and> picks m = WorkerRuns"
proof -
  obtain i where i: "n \<le> i" "at_loop_head (run i)" using worker_returns [OF run] by blast
  have "\<exists>m \<ge> i. picks m = WorkerRuns" using run by (simp add: fair_run_def fair_def)
  define m where "m = (LEAST m. i \<le> m \<and> picks m = WorkerRuns)"
  have m: "i \<le> m" "picks m = WorkerRuns"
    using LeastI_ex [OF \<open>\<exists>m \<ge> i. picks m = WorkerRuns\<close>] by (simp_all add: m_def)
  have before: "picks j \<noteq> WorkerRuns" if "i \<le> j" "j < m" for j
    using that not_less_Least [of j "\<lambda>m. i \<le> m \<and> picks m = WorkerRuns"] by (auto simp: m_def)
  have "at_loop_head (run j)" if "i \<le> j" "j \<le> m" for j
    using that
  proof (induction j rule: dec_induct)
    case (step j)
    then show ?case
      using head_stays [OF fair_run_inv [OF run]] before fair_run_Suc [OF run] by simp
  qed (rule i(2))
  with m i show ?thesis by (meson order_trans order_refl)
qed

lemma worker_takes:
  assumes run: "fair_run gm om picks run" and go: "\<forall>n. \<not> pr_stopUtWorker (run n)"
    and wait: "length (pr_taken (run n)) < length (pr_arrived (run n))"
  shows "\<exists>m \<ge> n. length (pr_taken (run n)) < length (pr_taken (run m))"
proof -
  obtain m where m: "n \<le> m" "at_loop_head (run m)" "picks m = WorkerRuns"
    using worker_gets_turn [OF run] by blast
  obtain ms as where grown: "pr_taken (run m) = pr_taken (run n) @ ms" "pr_arrived (run m) = pr_arrived (run n) @ as"
    using fair_run_grows [OF run m(1)] by blast
  show ?thesis
  proof (cases "ms = []")
    case True
    have "pr_arrived (run m) = pr_taken (run m) @ uc_messageQueue (pr_ut (run m))"
      using fair_run_inv [OF run, of m] by (simp add: worker_inv_def)
    with True grown wait have "uc_messageQueue (pr_ut (run m)) \<noteq> []" by auto
    then have "length (pr_taken (run (Suc m))) = Suc (length (pr_taken (run m)))"
      using turn_takes m go fair_run_Suc [OF run, of m] by simp
    with True grown m(1) show ?thesis by (intro exI [of _ "Suc m"]) simp
  qed (use m grown in auto)
qed

lemma worker_takes_up_to:
  assumes run: "fair_run gm om picks run" and go: "\<forall>n. \<not> pr_stopUtWorker (run n)"
    and "j \<le> length (pr_arrived (run n))"
  shows "\<exists>m \<ge> n. j \<le> length (pr_taken (run m))"
  using assms(3)
proof (induction j)
  case (Suc j)
  then obtain m where m: "n \<le> m" "j \<le> length (pr_taken (run m))" by auto
  show ?case
  proof (cases "Suc j \<le> length (pr_taken (run m))")
    case False
    obtain as where "pr_arrived (run m) = pr_arrived (run n) @ as"
      using fair_run_grows(2) [OF run m(1)] by blast
    then have "length (pr_taken (run m)) < length (pr_arrived (run m))"
      using False m Suc.prems by simp
    then obtain m' where "m \<le> m'" "length (pr_taken (run m)) < length (pr_taken (run m'))"
      using worker_takes [OF run go] by blast
    with m show ?thesis by (intro exI [of _ m']) auto
  qed (use m in blast)
qed auto

section \<open>Coming to rest\<close>

lemma quiet_pick:
  assumes "\<nexists>i t. a = ClientCalls i t" and "\<nexists>key instance. a = MessageIn key instance"
  shows "pr_arrived (perform gm om a s) = pr_arrived s"
    and "uc_messageQueue (pr_ut s) = [] \<Longrightarrow>
      length (sys_threads (pr_system (perform gm om a s))) = length (sys_threads (pr_system s))"
  using assms
  by (cases a; auto simp: act_threads workerTurn_def getMessage_def case_prod_unfold Let_def
      split: option.split list.split)+

lemma all_threads_finish:
  assumes run: "fair_run gm om picks run" and "K \<le> length (sys_threads (pr_system (run n)))"
  shows "\<exists>m \<ge> n. \<forall>m' \<ge> m. \<forall>k < K. finished (snd (sys_threads (pr_system (run m')) ! k))"
  using assms(2)
proof (induction K)
  case (Suc K)
  then obtain m1 where m1: "n \<le> m1"
    "\<forall>m' \<ge> m1. \<forall>k < K. finished (snd (sys_threads (pr_system (run m')) ! k))" by auto
  obtain m2 where "n \<le> m2" "\<forall>m' \<ge> m2. finished (snd (sys_threads (pr_system (run m')) ! K))"
    using fair_run_finishes [OF run, of K n] Suc.prems by auto
  with m1 show ?case by (intro exI [of _ "max m1 m2"]) (auto simp: less_Suc_eq)
qed auto

lemma at_rest_finished:
  "at_rest s \<longleftrightarrow> (\<forall>k < length (sys_threads s). finished (snd (sys_threads s ! k)))"
  by (simp add: at_rest_def finished_def list_all_length)

lemma comes_to_rest:
  assumes run: "fair_run gm om picks run" and go: "\<forall>n. \<not> pr_stopUtWorker (run n)"
    and quiet: "\<forall>m \<ge> n. (\<nexists>i t. picks m = ClientCalls i t) \<and> (\<nexists>key instance. picks m = MessageIn key instance)"
  shows "\<exists>m \<ge> n. \<forall>m' \<ge> m. at_rest (pr_system (run m')) \<and> pr_taken (run m') = pr_arrived (run m')"
proof -
  have arrived: "pr_arrived (run m) = pr_arrived (run n)" if "n \<le> m" for m
    using that
  proof (induction m rule: dec_induct)
    case (step m)
    then show ?case using quiet_pick(1) [of "picks m"] quiet fair_run_Suc [OF run] by simp
  qed simp
  have split: "pr_arrived (run m) = pr_taken (run m) @ uc_messageQueue (pr_ut (run m))" for m
    using fair_run_inv [OF run] by (simp add: worker_inv_def)
  obtain i where i: "n \<le> i" "length (pr_arrived (run n)) \<le> length (pr_taken (run i))"
    using worker_takes_up_to [OF run go order_refl] by blast
  have empty: "pr_taken (run m) = pr_arrived (run n) \<and> uc_messageQueue (pr_ut (run m)) = []" if m: "i \<le> m" for m
  proof -
    have "length (pr_taken (run i)) \<le> length (pr_taken (run m))"
      using fair_run_grows(1) [OF run m] by auto
    moreover have "length (pr_arrived (run n)) = length (pr_taken (run m)) + length (uc_messageQueue (pr_ut (run m)))"
      using split [of m] arrived [of m] i(1) m by (metis le_trans length_append)
    ultimately have "length (uc_messageQueue (pr_ut (run m))) = 0" using i(2) by linarith
    then have "uc_messageQueue (pr_ut (run m)) = []" by simp
    then show ?thesis using split [of m] arrived [of m] i(1) m by simp
  qed
  have threads: "length (sys_threads (pr_system (run m))) = length (sys_threads (pr_system (run i)))" if "i \<le> m" for m
    using that
  proof (induction m rule: dec_induct)
    case (step m)
    then show ?case
      using quiet_pick(2) [of "picks m" "run m"] quiet i empty [of m] fair_run_Suc [OF run] by simp
  qed simp
  obtain m where m: "i \<le> m" "\<forall>m' \<ge> m. \<forall>k < length (sys_threads (pr_system (run i))).
      finished (snd (sys_threads (pr_system (run m')) ! k))"
    using all_threads_finish [OF run order_refl, of i] by blast
  have "at_rest (pr_system (run m'))" if "m \<le> m'" for m'
    using that m threads [of m'] by (simp add: at_rest_finished)
  moreover have "pr_taken (run m') = pr_arrived (run m')" if "m \<le> m'" for m'
    using that m(1) i(1) empty [of m'] arrived [of m'] by simp
  ultimately show ?thesis using m(1) i(1) by (meson order_trans)
qed

section \<open>Properties\<close>


text \<open>
  A worker that is told to stop does. In a fair run, once the flag is set, no further message
  is taken, and the worker is out of its last port call from some time on, so that the join in
  the destructor of the manager returns.
\<close>

lemma stop_request_is_obeyed:
  assumes "fair_run gm om picks run" and "pr_stopUtWorker (run n)"
  shows "\<exists>m \<ge> n. \<forall>m' \<ge> m. at_loop_head (run m') \<and> pr_taken (run m') = pr_taken (run n)"
proof -
  have stop: "pr_stopUtWorker (run m) \<and> pr_taken (run m) = pr_taken (run n)" if "n \<le> m" for m
    using that
  proof (induction m rule: dec_induct)
    case (step m)
    then show ?case
      using stop_stays idle_pick [of "picks m" "run m" gm om] fair_run_Suc [OF assms(1)] by simp
  qed (simp add: assms(2))
  obtain m where m: "n \<le> m" "at_loop_head (run m)" using worker_returns [OF assms(1)] by blast
  have "at_loop_head (run m')" if "m \<le> m'" for m'
    using that
  proof (induction m' rule: dec_induct)
    case (step j)
    then show ?case
      using head_stays [OF fair_run_inv [OF assms(1)]] stop [of j] m fair_run_Suc [OF assms(1)] by simp
  qed (rule m(2))
  with m stop show ?thesis by (meson order_trans)
qed

text \<open>
  C14: left alone, the service comes to rest and its books balance. In a fair run of a served
  process whose worker is not stopped, when no further calls and messages come in, every
  message ends up served and every call returned; the count of started ports is then the number
  of STARTED ports, and no port is left in the middle of a transition.
\<close>

theorem service_comes_to_rest:
  assumes "run_service uenv longBits bufSize openKvp caps0 addServiceOk argv = Serving s0"
    and "fair picks" and "\<forall>n. \<not> pr_stopUtWorker (process_run gm om s0 picks n)"
    and "\<forall>m \<ge> n. (\<nexists>i t. picks m = ClientCalls i t) \<and> (\<nexists>key instance. picks m = MessageIn key instance)"
  shows "\<exists>m. let s = process_run gm om s0 picks m in
    at_rest (pr_system s) \<and>
    pr_taken s = pr_arrived s \<and>
    g_startedPorts (sys_globals (pr_system s)) = cnt (\<lambda>p. m_state p = STARTED) (sys_ports (pr_system s)) \<and>
    (\<forall>p \<in> set (sys_ports (pr_system s)). stable (m_state p))"
proof -
  let ?run = "process_run gm om s0 picks"
  obtain mg g es st where mg: "s0 = started_process mg g"
    "CompositeInputManager uenv longBits bufSize openKvp caps0 st initial_globals = (mg, g, es)"
    using serving_started [OF assms(1)] by metis
  have run: "fair_run gm om picks ?run" using assms(2) mg(1) by (auto simp: fair_run_def)
  obtain m where m: "n \<le> m" "\<forall>m' \<ge> m. at_rest (pr_system (?run m')) \<and> pr_taken (?run m') = pr_arrived (?run m')"
    using comes_to_rest [OF run assms(3,4)] by blast
  obtain limit cfgs where "pr_system s0 = boot_system limit cfgs"
    using constructed_booted [OF mg(2)] mg(1) by metis
  then have "sys_step\<^sup>*\<^sup>* (boot_system limit cfgs) (pr_system (?run m))"
    using process_steps_system [OF run_reachable] by metis
  moreover have "at_rest (pr_system (?run m))" using m by simp
  ultimately have books: "g_startedPorts (sys_globals (pr_system (?run m))) =
      cnt (\<lambda>p. m_state p = STARTED) (sys_ports (pr_system (?run m))) \<and>
      (\<forall>p \<in> set (sys_ports (pr_system (?run m))). stable (m_state p))"
    by (rule rest_accounts)
  with books m(2) show ?thesis by (intro exI [of _ m]) (simp add: Let_def)
qed

section \<open>A fair run\<close>

text \<open>
  One message arrives, then the worker and the threads get their turns; the pair of
  decoded numbers makes each of them come again for ever.
\<close>

definition demo_picks :: "nat \<Rightarrow> process_action" where
  "demo_picks n =
     (if n = 0 then MessageIn (Some ''compositeinput'') (Some (Some ''doc''))
      else case fst (prod_decode n) of 0 \<Rightarrow> WorkerRuns | Suc k \<Rightarrow> ThreadRuns k demo_env)"

lemma demo_fair: "fair demo_picks"
proof -
  have pick: "\<exists>m \<ge> n. m \<noteq> 0 \<and> fst (prod_decode m) = i" for i n
  proof -
    have "Suc n \<le> prod_encode (i, Suc n)" by (rule le_prod_encode_2)
    then show ?thesis by (intro exI [of _ "prod_encode (i, Suc n)"]) simp
  qed
  have "demo_picks m = WorkerRuns" if "m \<noteq> 0 \<and> fst (prod_decode m) = 0" for m
    using that by (simp add: demo_picks_def)
  then have "\<exists>m \<ge> n. demo_picks m = WorkerRuns" for n using pick [of n 0] by meson
  moreover have "demo_picks m = ThreadRuns k demo_env" if "m \<noteq> 0 \<and> fst (prod_decode m) = Suc k" for m k
    using that by (simp add: demo_picks_def)
  then have "\<exists>m \<ge> n. \<exists>env. demo_picks m = ThreadRuns k env" for k n using pick [of n "Suc k"] by meson
  ultimately show ?thesis by (simp add: fair_def)
qed

lemma demo_not_stopped:
  "\<not> pr_stopUtWorker s0 \<Longrightarrow> \<not> pr_stopUtWorker (process_run gm om s0 demo_picks n)"
proof (induction n)
  case (Suc n)
  then show ?case
    by (auto simp: process_run_Suc demo_picks_def messageArrives_def workerTurn_def case_prod_unfold Let_def
        split: nat.split option.split)
qed (simp add: process_run_def)





theorem service_comes_to_rest_witness:
  "\<exists>s0 m. run_service demo_ut_env 64 256 (\<lambda>path. Some (table_kvp demo_fields demo_lists)) demo_caps True
       [Some ''svc''] = Serving s0 \<and>
     at_rest (pr_system (process_run scan_map (\<lambda>payload. Some (signal_message ''STABLE'')) s0 demo_picks m))"
proof -
  let ?r = "run_service demo_ut_env 64 256 (\<lambda>path. Some (table_kvp demo_fields demo_lists)) demo_caps True [Some ''svc'']"
  let ?om = "\<lambda>payload. Some (signal_message ''STABLE'')"
  obtain s0 where s0: "?r = Serving s0"
    by (simp add: run_service_def default_main case_prod_unfold Let_def)
  then have "\<not> pr_stopUtWorker s0"
    by (auto simp: run_service_def CompositeInputManager_def started_process_def default_main case_prod_unfold Let_def)
  then have go: "\<forall>n. \<not> pr_stopUtWorker (process_run scan_map ?om s0 demo_picks n)"
    using demo_not_stopped by blast
  have "\<forall>m \<ge> 1. (\<nexists>i t. demo_picks m = ClientCalls i t) \<and> (\<nexists>key instance. demo_picks m = MessageIn key instance)"
    by (auto simp: demo_picks_def split: nat.split)
  from service_comes_to_rest [OF s0 demo_fair go this] s0 show ?thesis by (auto simp: Let_def)
qed

end
