(* ===== verification/Service_Spec.thy ===== *)
theory Service_Spec
  imports Port_Interleaving
begin

text \<open>
  The contract of the service as its clients see it: one abstract session per port, all of them
  drawing on one pool of slots. Session requests are addressed to a port; property writes,
  metric resets, observer registrations and control-plane messages are data calls, which no
  session notices. The ports of \<open>Port_Session\<close>, one call at a time, implement it.
\<close>

section \<open>The abstract service\<close>

datatype service_input =
    SessionCall nat binder_env request
  | DataCall nat binder_env data_call

text \<open>Every session sees the common pool, so a step of one hands its count on to all.\<close>

definition share_pool :: "session \<Rightarrow> session list \<Rightarrow> session list" where
  "share_pool s ss = map (\<lambda>t. t\<lparr>s_used := s_used s, s_limit := s_limit s\<rparr>) ss"

fun service_spec :: "service_input \<Rightarrow> session list \<Rightarrow> reply option \<times> session list" where
  "service_spec (SessionCall i env r) ss =
     (if i < length ss
      then (let (rep, s) = spec_step (env, r) (ss ! i) in (Some rep, share_pool s (ss[i := s])))
      else (None, ss))"
| "service_spec (DataCall i env d) ss = (None, ss)"

section \<open>The concrete service\<close>

fun service_serve :: "service_input \<Rightarrow> port list \<times> globals \<Rightarrow> reply option \<times> (port list \<times> globals)" where
  "service_serve (SessionCall i env r) (ps, g) =
     (if i < length ps
      then (let ((rep, es), (p, g')) = serve (env, r) (ps ! i, g) in (Some rep, (ps[i := p], g')))
      else (None, (ps, g)))"
| "service_serve (DataCall i env d) (ps, g) =
     (if i < length ps
      then (None, (ps[i := fst (snd (data_section env d (ps ! i)))], g))
      else (None, (ps, g)))"

definition abs_service :: "port list \<times> globals \<Rightarrow> session list" where
  "abs_service s = map (\<lambda>p. abs_session (p, snd s)) (fst s)"

definition service_settled :: "port list \<times> globals \<Rightarrow> bool" where
  "service_settled s \<longleftrightarrow>
     (\<forall>p \<in> set (fst s). port_inv p \<and> stable (m_state p) \<and> \<not> m_deathCleanupPending p) \<and>
     g_startedPorts (snd s) = cnt (\<lambda>p. m_state p = STARTED) (fst s) \<and>
     g_startedPorts (snd s) \<le> g_maxStartedPorts (snd s)"

section \<open>Data calls are invisible to sessions\<close>

lemma data_section_session:
  "session_view (fst (snd (data_section env d p))) = session_view p \<or>
   (\<exists>ls. session_view (fst (snd (data_section env d p))) = session_view (p\<lparr>m_eventListeners := ls\<rparr>))"
proof (cases d)
  case (UtMessage gm kvp)
  then show ?thesis by (simp add: case_prod_unfold Let_def handle_session_view)
next
  case (SetPropertyMulti kvs)
  have "session_view (writeBatch kvs p) = session_view p"
    by (induction kvs arbitrary: p) simp_all
  with SetPropertyMulti show ?thesis
    by (simp add: setPropertyMultiFromController_def split: option.split)
qed (auto simp: registerEventListener_def unregisterEventListener_def setPropertyFromController_def
    resetMetricsFromController_def case_prod_unfold Let_def session_view_def split: option.split)

lemma data_section_keeps:
  "m_state (fst (snd (data_section env d p))) = m_state p"
  "m_controller (fst (snd (data_section env d p))) = m_controller p"
  "m_sessionEpoch (fst (snd (data_section env d p))) = m_sessionEpoch p"
  "m_deathCleanupPending (fst (snd (data_section env d p))) = m_deathCleanupPending p"
  using data_section_session [of env d p] by (auto simp: session_view_def)

lemma data_section_inv: "port_inv p \<Longrightarrow> port_inv (fst (snd (data_section env d p)))"
proof (cases d)
  case (SetPropertyMulti kvs)
  then show "port_inv p \<Longrightarrow> ?thesis"
    by (simp add: setPropertyMultiFromController_def inv_writeBatch split: option.split)
qed (simp_all add: case_prod_unfold Let_def inv_register inv_unregister inv_handle inv_resetMetrics
    setPropertyFromController_def inv_cacheWrite)

section \<open>Session requests\<close>

text \<open>A request moves the pool exactly as the running phase of its own session.\<close>

lemma spec_step_pool:
  "s_used (snd (spec_step r s)) - s_used s =
     of_bool (s_phase (snd (spec_step r s)) = Running) - of_bool (s_phase s = Running)"
  "s_limit (snd (spec_step r s)) = s_limit s"
  by (cases "(r, s)" rule: spec_step.cases; auto simp: end_session_def)+

lemma settled_member:
  assumes "service_settled (ps, g)" and "i < length ps"
  shows "settled (ps ! i, g)"
  using assms cnt_pos [of i ps "\<lambda>p. m_state p = STARTED"] by (simp add: service_settled_def settled_def)

lemma running_started: "stable (m_state p) \<Longrightarrow> s_phase (abs_session (p, g)) = Running \<longleftrightarrow> m_state p = STARTED"
  by (simp add: phase_closed)

lemma serve_member:
  assumes "service_settled (ps, g)" and "i < length ps" and "serve (env, r) (ps ! i, g) = ((rep, es), (p, g'))"
  shows "spec_step (env, r) (abs_session (ps ! i, g)) = (rep, abs_session (p, g'))"
    and "service_settled (ps[i := p], g')"
proof -
  have ref: "refines (env, r) (ps ! i, g)"
    by (rule serve_refines [OF settled_member [OF assms(1,2)]])
  then show step: "spec_step (env, r) (abs_session (ps ! i, g)) = (rep, abs_session (p, g'))"
    using assms(3) by (simp add: refines_def serve_reply_def)
  have p: "settled (p, g')"
    using ref assms(3) by (simp add: refines_def serve_reply_def)
  have "g_startedPorts g' - g_startedPorts g = of_bool (m_state p = STARTED) - of_bool (m_state (ps ! i) = STARTED)"
    using spec_step_pool(1) [of "(env, r)" "abs_session (ps ! i, g)"] step p assms(1,2)
    by (simp add: running_started settled_def service_settled_def phase_closed)
  moreover have "\<forall>q \<in> set (ps[i := p]). port_inv q \<and> stable (m_state q) \<and> \<not> m_deathCleanupPending q"
    using assms(1) p set_update_subset_insert [of ps i p] by (auto simp: service_settled_def settled_def)
  ultimately show "service_settled (ps[i := p], g')"
    using assms(1,2) p by (simp add: service_settled_def settled_def cnt_update)
qed

lemma abs_share:
  "snd (spec_step r (abs_session (ps ! i, g))) = abs_session (p, g') \<Longrightarrow> i < length ps \<Longrightarrow>
   share_pool (abs_session (p, g')) ((abs_service (ps, g))[i := abs_session (p, g')]) = abs_service (ps[i := p], g')"
  by (rule nth_equalityI) (auto simp: share_pool_def abs_service_def nth_list_update abs_session_def)

lemma service_step:
  assumes "service_settled s"
  shows "service_settled (snd (service_serve x s))"
    and "service_spec x (abs_service s) = (fst (service_serve x s), abs_service (snd (service_serve x s)))"
proof -
  obtain ps g where s: "s = (ps, g)" by fastforce
  have "service_settled (snd (service_serve x s)) \<and>
    service_spec x (abs_service s) = (fst (service_serve x s), abs_service (snd (service_serve x s)))"
  proof (cases x)
    case (SessionCall i env r)
    obtain rep es p g' where e: "serve (env, r) (ps ! i, g) = ((rep, es), (p, g'))"
      by (cases "serve (env, r) (ps ! i, g)") auto
    show ?thesis
    proof (cases "i < length ps")
      case True
      note m = serve_member [OF assms [unfolded s] True e]
      with True e abs_share [of "(env, r)" ps i g p g'] show ?thesis
        by (simp add: s SessionCall) (simp add: abs_service_def)
    qed (simp add: s SessionCall assms [unfolded s] abs_service_def)
  next
    case (DataCall i env d)
    let ?p = "fst (snd (data_section env d (ps ! i)))"
    show ?thesis
    proof (cases "i < length ps")
      case True
      have "abs_session (?p, g) = abs_session (ps ! i, g)"
        by (simp add: abs_session_def data_section_keeps)
      then have "abs_service (ps[i := ?p], g) = abs_service (ps, g)"
        using True list_update_id [of "map (\<lambda>p. abs_session (p, g)) ps" i]
        by (simp add: abs_service_def map_update)
      moreover have "port_inv ?p"
        using assms True by (intro data_section_inv) (simp add: s service_settled_def)
      then have "\<forall>q \<in> set (ps[i := ?p]). port_inv q \<and> stable (m_state q) \<and> \<not> m_deathCleanupPending q"
        using assms True set_update_subset_insert [of ps i ?p]
        by (auto simp: s service_settled_def data_section_keeps)
      ultimately show ?thesis
        using assms True by (simp add: s DataCall service_settled_def cnt_update data_section_keeps)
    qed (simp add: s DataCall assms [unfolded s])
  qed
  then show "service_settled (snd (service_serve x s))"
    and "service_spec x (abs_service s) = (fst (service_serve x s), abs_service (snd (service_serve x s)))"
    by blast+
qed

interpretation service_sim: simulation service_serve service_spec abs_service service_settled
  by unfold_locales (simp_all add: service_step)


section \<open>Properties\<close>

text \<open>
  C4: the service implements independent sessions over one pool of slots. Any sequence of
  session requests to any ports, mixed with property writes, metric resets, observer
  registrations and control-plane messages, is answered as the abstract service answers it;
  data calls change no session; and the ports end settled, with exactly one slot in use per
  started port and never more than the limit.
\<close>

theorem service_refinement:
  assumes "service_settled (ps, g)"
  shows "let (replies, (ps', g')) = run_machine service_serve xs (ps, g) in
     run_machine service_spec xs (abs_service (ps, g)) = (replies, abs_service (ps', g')) \<and>
     service_settled (ps', g') \<and> length ps' = length ps \<and>
     cnt (\<lambda>s. s_phase s = Running) (abs_service (ps', g')) = g_startedPorts g' \<and>
     g_startedPorts g' \<le> g_maxStartedPorts g'"
proof -
  obtain replies ps' g' where r: "run_machine service_serve xs (ps, g) = (replies, (ps', g'))"
    by (cases "run_machine service_serve xs (ps, g)") auto
  have ok: "service_settled (ps', g')"
    using service_sim.ok_run [OF assms, of xs] r by simp
  have sim: "run_machine service_spec xs (abs_service (ps, g)) = (replies, abs_service (ps', g'))"
    using service_sim.run_commutes [OF assms, of xs] r by simp
  have "length (fst (snd (service_serve x t))) = length (fst t)" for x t
    by (cases "(x, t)" rule: service_serve.cases) (simp_all add: case_prod_unfold Let_def)
  then have "length (fst (snd (run_machine service_serve xs t))) = length (fst t)" for t
    by (induction xs arbitrary: t) (simp_all add: case_prod_unfold Let_def)
  then have len: "length ps' = length ps" using r by (metis fst_conv snd_conv)
  have "cnt (\<lambda>s. s_phase s = Running) (abs_service (ps', g')) = cnt (\<lambda>p. m_state p = STARTED) ps'"
    unfolding abs_service_def cnt_def filter_map comp_def length_map
    using ok by (intro arg_cong [where f = "\<lambda>xs. int (length xs)"] filter_cong)
      (auto simp: service_settled_def phase_closed)
  with r ok sim len show ?thesis by (simp add: service_settled_def)
qed

text \<open>Two ports and one slot: the second client has to wait until the first one stops.\<close>

theorem service_refinement_witness:
  "\<exists>ps g. service_settled (ps, g) \<and>
     fst (run_machine service_serve
       [SessionCall 0 demo_env (Open 5), SessionCall 1 demo_env (Open 6), SessionCall 0 demo_env Start,
        SessionCall 1 demo_env Start, SessionCall 0 demo_env Stop, SessionCall 1 demo_env Start] (ps, g)) =
     [Some (OpenReply StatusOk (Some 42)), Some (OpenReply StatusOk (Some 42)), Some (StatusReply StatusOk),
      Some (StatusReply (StatusEx EX_ILLEGAL_STATE)), Some (StatusReply StatusOk), Some (StatusReply StatusOk)]"
proof -
  let ?ps = "[CompositeInputPort 0, CompositeInputPort 1]"
  let ?xs = "[SessionCall 0 demo_env (Open 5), SessionCall 1 demo_env (Open 6), SessionCall 0 demo_env Start,
        SessionCall 1 demo_env Start, SessionCall 0 demo_env Stop, SessionCall 1 demo_env Start]"
  have s: "service_settled (?ps, initial_globals)"
    by (simp add: service_settled_def inv_construct) (simp add: CompositeInputPort_def initial_globals_def)
  have "fst (run_machine service_serve ?xs (?ps, initial_globals)) =
      fst (run_machine service_spec ?xs (abs_service (?ps, initial_globals)))"
    using service_refinement [OF s, of ?xs]
    by (cases "run_machine service_serve ?xs (?ps, initial_globals)") auto
  also have "\<dots> = [Some (OpenReply StatusOk (Some 42)), Some (OpenReply StatusOk (Some 42)), Some (StatusReply StatusOk),
      Some (StatusReply (StatusEx EX_ILLEGAL_STATE)), Some (StatusReply StatusOk), Some (StatusReply StatusOk)]"
    by (simp add: abs_service_def abs_session_def CompositeInputPort_def initial_globals_def share_pool_def
        client_gone_def demo_env_def Let_def)
  finally show ?thesis using s by blast
qed

end
