(* ===== verification/Death_Cleanup.thy ===== *)
theory Death_Cleanup
  imports Service_Spec
begin

text \<open>
  What becomes of a session whose client dies, under all interleavings. A death notice carries
  the epoch of its session; the clean-up it starts either goes through, or is deferred to the
  thread that is in the middle of a transition. The theory shows that a notice acts on its own
  session only and, with the one exception of \<open>deferred_cleanup_can_be_lost\<close> (a close stage that
  meets a started port), that a deferred clean-up is always in somebody's hands and that the
  session of a dead client ends.
\<close>

section \<open>Whose clean-up a thread carries\<close>

text \<open>The epoch a clean-up in progress was asked for.\<close>

definition notice_epoch :: "task \<Rightarrow> uint64 option" where
  "notice_epoch t =
     (case t of
        DeathBegin e \<Rightarrow> Some e
      | DeathStopNotify e _ _ \<Rightarrow> Some e
      | DeathReady e \<Rightarrow> Some e
      | DeathReadyNotify e _ _ \<Rightarrow> Some e
      | DeathRelease e \<Rightarrow> Some e
      | DeathClosing e \<Rightarrow> Some e
      | _ \<Rightarrow> None)"

text \<open>The implicit close of a clean-up, which has no epoch left to compare.\<close>

definition closes_implicitly :: "task \<Rightarrow> bool" where
  "closes_implicitly t \<longleftrightarrow> (case t of DeathClosingNotify _ _ \<Rightarrow> True | DeathFinish \<Rightarrow> True | _ \<Rightarrow> False)"

text \<open>Threads that still look for a deferred clean-up, or end the session themselves.\<close>

definition looks_after :: "task \<Rightarrow> bool" where
  "looks_after t \<longleftrightarrow>
     (case t of
        OpenLink _ _ _ _ _ \<Rightarrow> True
      | OpenRollback \<Rightarrow> True
      | OpenAnnounce _ _ _ _ \<Rightarrow> True
      | OpenConnection _ _ \<Rightarrow> True
      | OpenReady \<Rightarrow> True
      | OpenReadyNotify _ _ \<Rightarrow> True
      | CloseNotify _ _ \<Rightarrow> True
      | CloseFinish \<Rightarrow> True
      | StartNotify _ _ \<Rightarrow> True
      | StartReadSignal \<Rightarrow> True
      | StartSignalNotify _ _ \<Rightarrow> True
      | StartStarted \<Rightarrow> True
      | StartStartedNotify _ _ \<Rightarrow> True
      | StartBaseline \<Rightarrow> True
      | StartTelemetry _ _ _ \<Rightarrow> True
      | StopNotify _ _ \<Rightarrow> True
      | StopReady \<Rightarrow> True
      | StopReadyNotify _ _ \<Rightarrow> True
      | StopRelease \<Rightarrow> True
      | PendingCheck \<Rightarrow> True
      | _ \<Rightarrow> False)"

definition carrier :: "port \<Rightarrow> task \<Rightarrow> bool" where
  "carrier p t \<longleftrightarrow>
     looks_after t \<or> closes_implicitly t \<or>
     (notice_epoch t = Some (m_sessionEpoch p) \<and> (\<forall>e. t \<noteq> DeathBegin e))"

definition ends_session :: "uint64 \<Rightarrow> task \<Rightarrow> bool" where
  "ends_session e t \<longleftrightarrow> notice_epoch t = Some e \<or> closes_implicitly t"

text \<open>A clean-up that is stopping the port stops the port of its own session.\<close>

definition notice_ok :: "task \<Rightarrow> port \<Rightarrow> bool" where
  "notice_ok t p \<longleftrightarrow>
     (phase_claim t = Some STOPPING \<longrightarrow> notice_epoch t \<noteq> None \<longrightarrow> notice_epoch t = Some (m_sessionEpoch p))"

text \<open>The case in which the close stage of a clean-up defers to nobody.\<close>

definition misses :: "task \<Rightarrow> port \<Rightarrow> bool" where
  "misses t p \<longleftrightarrow>
     (case t of DeathClosing e \<Rightarrow> e = m_sessionEpoch p \<and> m_state p = STARTED | _ \<Rightarrow> False)"

lemmas notice_defs = notice_epoch_def closes_implicitly_def looks_after_def carrier_def ends_session_def
  notice_ok_def misses_def

section \<open>One action\<close>

definition epoch_step :: "task \<Rightarrow> port \<Rightarrow> outcome \<Rightarrow> bool" where
  "epoch_step t p r \<longleftrightarrow>
     (let (t', p', g', es) = r in
        (m_sessionEpoch p' \<noteq> m_sessionEpoch p \<longrightarrow> \<not> m_deathCleanupPending p' \<and> m_state p \<noteq> STOPPING) \<and>
        notice_ok t' p' \<and>
        (m_deathCleanupPending p' \<longrightarrow>
           carrier p' t' \<or> (m_deathCleanupPending p \<and> \<not> carrier p t) \<or>
           (phase_claim t' = None \<and> \<not> stable (m_state p')) \<or> misses t p) \<and>
        (m_sessionEpoch p' = m_sessionEpoch p \<and> m_state p \<noteq> CLOSED \<longrightarrow>
           m_state p' \<noteq> CLOSED \<and>
           (ends_session (m_sessionEpoch p) t \<or> m_deathCleanupPending p \<longrightarrow>
              ends_session (m_sessionEpoch p) t' \<or> m_deathCleanupPending p')))"

lemma epoch_succ: "e + 1 \<noteq> (e :: uint64)"
  by simp

lemma finish_epoch [simp]:
  "m_sessionEpoch (fst (closeFinish env p)) = m_sessionEpoch p + 1"
  "m_sessionEpoch (fst (cleanupFinish p)) = m_sessionEpoch p + 1"
  "m_sessionEpoch (Port_Session.openRollback p) = m_sessionEpoch p + 1"
  "\<not> m_deathCleanupPending (fst (closeFinish env p))"
  "\<not> m_deathCleanupPending (fst (cleanupFinish p))"
  "\<not> m_deathCleanupPending (Port_Session.openRollback p)"
  "m_sessionEpoch (fst (startBaseline env p)) = m_sessionEpoch p"
  "m_deathCleanupPending (fst (startBaseline env p)) = m_deathCleanupPending p"
  "m_sessionEpoch (fst (setStateLocked x p)) = m_sessionEpoch p"
  "m_deathCleanupPending (fst (setStateLocked x p)) = m_deathCleanupPending p"
  by (simp_all add: section_defs Let_def)

lemma micro_epoch:
  assumes "port_inv p" and "claim_ok t p" and "notice_ok t p"
  shows "epoch_step t p (micro env t p g)"
proof (cases t)
  case (DataBegin d)
  with data_section_keeps show ?thesis
    by (simp add: epoch_step_def notice_defs ownership_defs case_prod_unfold Let_def)
next
  case (OpenBegin l)
  with assms(1) show ?thesis
    by (auto simp: epoch_step_def notice_defs ownership_defs openEnter_def setStateLocked_def Let_def)
next
  case (DeathBegin e)
  with assms show ?thesis
    by (cases "m_state p") (auto simp: epoch_step_def notice_defs ownership_defs cleanupStopStage_def Let_def
        setStateLocked_def port_inv_def)
next
  case (DeathClosing e)
  with assms show ?thesis
    by (cases "m_state p") (auto simp: epoch_step_def notice_defs ownership_defs cleanupCloseStage_def Let_def
        setStateLocked_def port_inv_def)
next
  case PendingCheck
  with assms(1) show ?thesis
    by (auto simp: epoch_step_def notice_defs ownership_defs takePending_def)
qed (use assms in \<open>auto simp: epoch_step_def notice_defs ownership_defs case_prod_unfold Let_def
    split: option.split close_entry.split dest!: enter_result\<close>)

section \<open>All threads together\<close>

text \<open>The steps of \<open>Port_Interleaving\<close>, but for the one action that defers to nobody.\<close>

inductive careful_step :: "system \<Rightarrow> system \<Rightarrow> bool" where
  careful_call: "i < length (sys_ports s) \<Longrightarrow> is_entry t \<Longrightarrow> careful_step s (invoke i t s)"
| careful_action: "k < length (sys_threads s) \<Longrightarrow>
    \<not> misses (snd (sys_threads s ! k)) (sys_ports s ! fst (sys_threads s ! k)) \<Longrightarrow>
    careful_step s (act env k s)"

inductive_cases careful_stepE: "careful_step s s'"

lemma careful_sys_step: "careful_step s s' \<Longrightarrow> sys_step s s'"
  by (auto elim!: careful_stepE intro: sys_step.intros)

lemma careful_sys_steps: "careful_step\<^sup>*\<^sup>* s s' \<Longrightarrow> sys_step\<^sup>*\<^sup>* s s'"
  by (induction rule: rtranclp_induct) (auto dest: careful_sys_step)

definition in_hands :: "system \<Rightarrow> nat \<Rightarrow> bool" where
  "in_hands s i \<longleftrightarrow> (\<exists>th \<in> set (sys_threads s). fst th = i \<and> carrier (sys_ports s ! i) (snd th))"

definition notice_inv :: "system \<Rightarrow> bool" where
  "notice_inv s \<longleftrightarrow>
     sys_inv s \<and> (\<forall>th \<in> set (sys_threads s). notice_ok (snd th) (sys_ports s ! fst th))"

definition death_inv :: "system \<Rightarrow> bool" where
  "death_inv s \<longleftrightarrow>
     notice_inv s \<and>
     (\<forall>i < length (sys_ports s). m_deathCleanupPending (sys_ports s ! i) \<longrightarrow> in_hands s i)"

lemma death_invD:
  "death_inv s \<Longrightarrow> i < length (sys_ports s) \<Longrightarrow> m_deathCleanupPending (sys_ports s ! i) \<Longrightarrow> in_hands s i"
  by (simp add: death_inv_def)

lemma notice_invoke:
  assumes "notice_inv s" and "i < length (sys_ports s)" and "is_entry t"
  shows "notice_inv (invoke i t s)"
proof -
  have "notice_ok t p" for p
    using entry_owns_nothing [OF assms(3)] by (simp add: notice_ok_def)
  then show ?thesis
    using assms inv_invoke [of s i t] by (auto simp: notice_inv_def invoke_def)
qed

lemma death_invoke:
  "death_inv s \<Longrightarrow> i < length (sys_ports s) \<Longrightarrow> is_entry t \<Longrightarrow> death_inv (invoke i t s)"
  using notice_invoke [of s i t] by (auto simp: death_inv_def in_hands_def invoke_def)

lemma claimer_carries: "phase_claim t \<noteq> None \<Longrightarrow> notice_ok t p \<Longrightarrow> carrier p t"
  by (cases t) (auto simp: phase_claim_def notice_defs)

lemma death_inv_boot: "death_inv (boot_system limit cfgs)"
proof -
  have "\<not> m_deathCleanupPending (boot_port cfg)" for cfg
    using boot_port_inv [of cfg] boot_port_closed [of cfg] by (simp add: port_inv_def)
  then show ?thesis
    using boot_inv [of limit cfgs] by (simp add: death_inv_def notice_inv_def boot_system_def)
qed

lemma set_update_keeps: "th \<in> set xs \<Longrightarrow> th \<noteq> xs ! k \<Longrightarrow> th \<in> set (xs[k := y])"
  by (metis in_set_conv_nth length_list_update nth_list_update_neq)

lemma act_shape:
  assumes "sys_threads s ! k = (i, t)" and "micro env t (sys_ports s ! i) (sys_globals s) = (t', p', g', es)"
  shows "sys_threads (act env k s) = (sys_threads s)[k := (i, t')]"
    and "sys_ports (act env k s) = (sys_ports s)[i := p']"
  using assms by (simp_all add: act_def)

lemma notice_act:
  assumes inv: "notice_inv s" and k: "k < length (sys_threads s)" and th: "sys_threads s ! k = (i, t)"
  shows "notice_inv (act env k s)"
    and "epoch_step t (sys_ports s ! i) (micro env t (sys_ports s ! i) (sys_globals s))"
proof -
  let ?p = "sys_ports s ! i" and ?s' = "act env k s"
  obtain t' p' g' es where m: "micro env t ?p (sys_globals s) = (t', p', g', es)"
    by (cases "micro env t ?p (sys_globals s)") auto
  note shape = act_shape [OF th m]
  have sys: "sys_inv s" using inv by (simp add: notice_inv_def)
  have mem: "(i, t) \<in> set (sys_threads s)" using k th by (metis nth_mem)
  have i: "i < length (sys_ports s)" using thread_local(1) [OF sys k th] .
  have own: "notice_ok t ?p" "claim_ok t ?p" "port_inv ?p"
    using inv mem i sys_invD(1,3) [OF sys] by (auto simp: notice_inv_def)
  show step: "epoch_step t ?p (micro env t ?p (sys_globals s))"
    by (rule micro_epoch [OF own(3,2,1)])
  note loc = step [unfolded m epoch_step_def Let_def prod.case]
  have "notice_ok (snd th) (sys_ports ?s' ! fst th)" if "th \<in> set (sys_threads ?s')" for th
  proof -
    from that obtain j where j: "j < length (sys_threads s)" "th = (sys_threads s)[k := (i, t')] ! j"
      by (auto simp: shape in_set_conv_nth)
    show ?thesis
    proof (cases "j = k")
      case False
      with j have u: "th = sys_threads s ! j" "th \<in> set (sys_threads s)" by simp_all
      then have "notice_ok (snd th) (sys_ports s ! fst th)" "claim_ok (snd th) (sys_ports s ! fst th)"
        using inv sys_invD(3) [OF sys] by (auto simp: notice_inv_def)
      with loc i show ?thesis
        by (cases "fst th = i") (auto simp: shape notice_ok_def claim_ok_def)
    qed (use j i loc in \<open>simp add: shape\<close>)
  qed
  then show "notice_inv ?s'"
    using inv_act [OF sys k] by (simp add: notice_inv_def)
qed

lemma death_act:
  assumes inv: "death_inv s" and k: "k < length (sys_threads s)" and th: "sys_threads s ! k = (i, t)"
    and careful: "\<not> misses t (sys_ports s ! i)"
  shows "death_inv (act env k s)"
proof -
  let ?p = "sys_ports s ! i" and ?s' = "act env k s"
  obtain t' p' g' es where m: "micro env t ?p (sys_globals s) = (t', p', g', es)"
    by (cases "micro env t ?p (sys_globals s)") auto
  note shape = act_shape [OF th m]
  have ninv: "notice_inv s" using inv by (simp add: death_inv_def)
  note next_inv = notice_act [OF ninv k th]
  have sys': "sys_inv ?s'" and notices: "th \<in> set (sys_threads ?s') \<Longrightarrow> notice_ok (snd th) (sys_ports ?s' ! fst th)" for th
    using next_inv(1) by (auto simp: notice_inv_def)
  note loc = next_inv(2) [where env = env, unfolded m epoch_step_def Let_def prod.case]
  have i: "i < length (sys_ports s)"
    using thread_local(1) [OF _ k th] ninv by (simp add: notice_inv_def)
  have hands: "in_hands ?s' j"
    if j: "j < length (sys_ports ?s')" and pending: "m_deathCleanupPending (sys_ports ?s' ! j)" for j
  proof (cases "j = i")
    case False
    then have "in_hands s j" using inv j pending by (simp add: death_inv_def shape)
    then obtain th' where "th' \<in> set (sys_threads s)" "fst th' = j" "carrier (sys_ports s ! j) (snd th')"
      by (auto simp: in_hands_def)
    moreover from this False have "th' \<noteq> (i, t)" by (metis fst_conv)
    then have "th' \<in> set (sys_threads ?s')"
      using \<open>th' \<in> set (sys_threads s)\<close> by (simp add: shape set_update_keeps th)
    ultimately show ?thesis using False by (auto simp: in_hands_def shape intro: bexI [of _ th'])
  next
    case True
    with pending i have p': "m_deathCleanupPending p'" by (simp add: shape)
    consider "carrier p' t'" | "m_deathCleanupPending ?p" "\<not> carrier ?p t"
      | "phase_claim t' = None" "\<not> stable (m_state p')"
      using loc p' careful by argo
    then show ?thesis
    proof cases
      case 1
      then show ?thesis
        using True k i by (auto simp: in_hands_def shape in_set_conv_nth intro!: bexI [of _ "(i, t')"] exI [of _ k])
    next
      case 2
      then have "in_hands s i" using inv i by (simp add: death_inv_def)
      then obtain th' where n: "th' \<in> set (sys_threads s)" "fst th' = i" "carrier ?p (snd th')"
        by (auto simp: in_hands_def)
      then have "th' \<noteq> (i, t)" using 2(2) by (metis snd_conv)
      then have "th' \<in> set (sys_threads ?s')"
        using n(1) by (simp add: shape set_update_keeps th)
      moreover have "carrier p' (snd th')"
        using n(3) loc p' by (auto simp: carrier_def)
      ultimately show ?thesis
        using True n(2) i by (auto simp: in_hands_def shape)
    next
      case 3
      have "0 < cnt (claims_on i) (sys_threads ?s')"
        using sys_invD(4) [OF sys', of i] 3(2) i by (simp add: shape)
      then obtain th where "th \<in> set (sys_threads ?s')" "fst th = i" "phase_claim (snd th) \<noteq> None"
        using cnt_zero_iff [of "claims_on i" "sys_threads ?s'"] by (auto simp: claims_on_def)
      then show ?thesis
        using True notices claimer_carries by (auto simp: in_hands_def)
    qed
  qed
  show "death_inv ?s'"
    using next_inv(1) hands by (simp add: death_inv_def)
qed

interpretation notice: transition_system
  "\<lambda>s. \<exists>limit cfgs. s = boot_system limit cfgs" sys_step notice_inv
proof unfold_locales
  fix s t assume "notice_inv s" and "sys_step s t"
  then show "notice_inv t"
    by (auto elim!: sys_stepE simp: notice_invoke intro: notice_act(1) [OF _ _ prod.collapse [symmetric]])
qed (use death_inv_boot in \<open>auto simp: death_inv_def\<close>)

interpretation death: transition_system
  "\<lambda>s. \<exists>limit cfgs. s = boot_system limit cfgs" careful_step death_inv
proof unfold_locales
  fix s t assume "death_inv s" and "careful_step s t"
  then show "death_inv t"
    by (auto elim!: careful_stepE simp: death_invoke intro: death_act [OF _ _ prod.collapse [symmetric]])
qed (auto simp: death_inv_boot)

lemma resting_not_pending:
  assumes "death_inv s" and "at_rest s" and "i < length (sys_ports s)"
  shows "\<not> m_deathCleanupPending (sys_ports s ! i)"
proof -
  have "\<not> carrier p (snd th)" if "th \<in> set (sys_threads s)" for th p
    using assms(2) that by (cases "snd th") (auto simp: at_rest_def list_all_iff notice_defs)
  then show ?thesis using assms(1,3) by (auto simp: death_inv_def in_hands_def)
qed

section \<open>The session of a dead client\<close>

definition doomed :: "nat \<Rightarrow> uint64 \<Rightarrow> system \<Rightarrow> bool" where
  "doomed i e s \<longleftrightarrow>
     i < length (sys_ports s) \<and> m_sessionEpoch (sys_ports s ! i) = e \<and> m_state (sys_ports s ! i) \<noteq> CLOSED \<and>
     (m_deathCleanupPending (sys_ports s ! i) \<or>
      (\<exists>th \<in> set (sys_threads s). fst th = i \<and> ends_session e (snd th)))"

lemma doomed_step:
  assumes inv: "death_inv s" and d: "doomed i e s" and step: "careful_step s s'"
  shows "doomed i e s' \<or> m_sessionEpoch (sys_ports s' ! i) \<noteq> e"
  using step
proof (cases rule: careful_step.cases)
  case (careful_call j t)
  then show ?thesis using d by (auto simp: doomed_def invoke_def)
next
  case (careful_action k env)
  obtain j t where th: "sys_threads s ! k = (j, t)" by fastforce
  let ?p = "sys_ports s ! j"
  obtain t' p' g' es where m: "micro env t ?p (sys_globals s) = (t', p', g', es)"
    by (cases "micro env t ?p (sys_globals s)") auto
  note shape = act_shape [OF th m]
  have "epoch_step t ?p (micro env t ?p (sys_globals s))"
    using notice_act(2) [OF _ careful_action(2) th] inv by (simp add: death_inv_def)
  note loc = this [unfolded m epoch_step_def Let_def prod.case]
  have k: "(j, t') \<in> set ((sys_threads s)[k := (j, t')])"
    using careful_action(2) by (metis length_list_update nth_list_update_eq nth_mem)
  have others: "th \<in> set ((sys_threads s)[k := (j, t')])" if "th \<in> set (sys_threads s)" "th \<noteq> (j, t)" for th
    using that th by (simp add: set_update_keeps)
  show ?thesis
  proof (cases "j = i")
    case False
    then show ?thesis
      using d others unfolding careful_action(1) by (fastforce simp: doomed_def shape)
  next
    case True
    show ?thesis
    proof (cases "m_sessionEpoch p' = e")
      case same: True
      have i: "i < length (sys_ports s)" using d by (simp add: doomed_def)
      have "m_state p' \<noteq> CLOSED"
        using d loc same True by (simp add: doomed_def)
      moreover have "m_deathCleanupPending p' \<or>
          (\<exists>th \<in> set ((sys_threads s)[k := (j, t')]). fst th = i \<and> ends_session e (snd th))"
      proof (cases "m_deathCleanupPending ?p \<or> ends_session e t")
        case True
        then show ?thesis using d loc same \<open>j = i\<close> k by (force simp: doomed_def)
      next
        case False
        then obtain th where "th \<in> set (sys_threads s)" "fst th = i" "ends_session e (snd th)"
          using d \<open>j = i\<close> by (auto simp: doomed_def)
        moreover from this have "th \<noteq> (j, t)" using False d \<open>j = i\<close> by (metis doomed_def snd_conv)
        ultimately show ?thesis using others by blast
      qed
      ultimately show ?thesis
        using i same True by (simp add: careful_action(1) doomed_def shape)
    next
      case False
      then show ?thesis using True d by (simp add: careful_action(1) doomed_def shape)
    qed
  qed
qed

lemma doomed_run:
  assumes "careful_step\<^sup>*\<^sup>* s s'" and "death_inv s" and "doomed i e s"
  shows "doomed i e s' \<or>
    (\<exists>s1. careful_step\<^sup>*\<^sup>* s s1 \<and> careful_step\<^sup>*\<^sup>* s1 s' \<and> m_sessionEpoch (sys_ports s1 ! i) \<noteq> e)"
  using assms(1)
proof (induction rule: rtranclp_induct)
  case (step s1 s2)
  have "death_inv s1"
    using step.hyps(1) assms(2) death.inv_step by (induction rule: rtranclp_induct) auto
  then show ?case
    using step doomed_step by (meson rtranclp.rtrancl_into_rtrancl rtranclp.rtrancl_refl)
qed (use assms(3) in simp)

lemma resting_not_doomed:
  assumes "death_inv s" and "at_rest s"
  shows "\<not> doomed i e s"
proof -
  have "\<not> ends_session e (snd th)" if "th \<in> set (sys_threads s)" for th
    using assms(2) that by (cases "snd th") (auto simp: at_rest_def list_all_iff notice_defs)
  then show ?thesis using resting_not_pending [OF assms] by (auto simp: doomed_def)
qed

section \<open>Concrete runs\<close>

fun careful_schedule :: "binder_env \<Rightarrow> nat list \<Rightarrow> system \<Rightarrow> bool" where
  "careful_schedule env [] s \<longleftrightarrow> True"
| "careful_schedule env (k # ks) s \<longleftrightarrow>
     k < length (sys_threads s) \<and>
     \<not> misses (snd (sys_threads s ! k)) (sys_ports s ! fst (sys_threads s ! k)) \<and>
     careful_schedule env ks (act env k s)"

lemma careful_schedule_run: "careful_schedule env ks s \<Longrightarrow> careful_step\<^sup>*\<^sup>* s (run_schedule env ks s)"
  by (induction ks arbitrary: s)
    (auto simp: run_schedule_def intro: careful_action converse_rtranclp_into_rtranclp)

lemma careful_calls:
  "i < length (sys_ports s) \<Longrightarrow> list_all is_entry ts \<Longrightarrow> careful_step\<^sup>*\<^sup>* s (calls i ts s)"
proof (induction ts arbitrary: s)
  case (Cons t ts)
  then have "careful_step s (invoke i t s)" by (auto intro: careful_call)
  moreover have "careful_step\<^sup>*\<^sup>* (invoke i t s) (calls i ts (invoke i t s))"
    using Cons.prems by (intro Cons.IH) (simp_all add: invoke_def)
  ultimately show ?case by (simp add: calls_def converse_rtranclp_into_rtranclp)
qed (simp add: calls_def)

lemma careful_scenario:
  assumes "list_all is_entry ts" and "careful_schedule demo_env ks (calls 0 ts (boot_system 1 demo_ports))"
  shows "careful_step\<^sup>*\<^sup>* (boot_system 1 demo_ports) (scenario ts ks)"
proof -
  have "0 < length (sys_ports (boot_system 1 demo_ports))"
    by (simp add: boot_system_def demo_ports_def)
  then show ?thesis
    unfolding scenario_def
    using careful_calls [OF _ assms(1)] careful_schedule_run [OF assms(2)] by (meson rtranclp_trans)
qed

text \<open>A started port whose client dies: the notice is delivered; later, the notice comes again.\<close>

definition dying_calls :: "task list" where
  "dying_calls = opening_calls @ [DeathBegin 1, DeathBegin 1]"

definition dying :: system where
  "dying = scenario dying_calls started_schedule"

text \<open>A client that dies while its port is starting: the clean-up is deferred to the start.\<close>

definition deferred :: system where
  "deferred = scenario dying_calls (replicate 2 0 @ replicate 7 1 @ replicate 3 2 @ [3])"

lemma dying_entries: "list_all is_entry dying_calls"
  by (simp add: dying_calls_def is_entry_def)

lemma dying_reachable: "careful_step\<^sup>*\<^sup>* (boot_system 1 demo_ports) dying"
  unfolding dying_def by (rule careful_scenario [OF dying_entries]) code_simp

lemma deferred_reachable: "careful_step\<^sup>*\<^sup>* (boot_system 1 demo_ports) deferred"
  unfolding deferred_def by (rule careful_scenario [OF dying_entries]) code_simp

section \<open>Properties\<close>

text \<open>
  A client's death ends its session. Whatever other calls, messages and death notices are
  under way and whatever more arrive, once a death notice for the current session of an open
  port has been delivered, that session is over by the time all calls have returned: at some
  moment in between the port has left the epoch of the session. The runs are those in which no
  close stage of a clean-up meets a started port, which \<open>deferred_cleanup_can_be_lost\<close> shows
  to be necessary.
\<close>

lemma dead_session_ends:
  assumes "careful_step\<^sup>*\<^sup>* (boot_system limit cfgs) s" and "careful_step\<^sup>*\<^sup>* s s'" and "at_rest s'"
    and "i < length (sys_ports s)" and "(i, DeathBegin e) \<in> set (sys_threads s)"
    and "m_sessionEpoch (sys_ports s ! i) = e" and "m_state (sys_ports s ! i) \<noteq> CLOSED"
  shows "\<exists>s1. careful_step\<^sup>*\<^sup>* s s1 \<and> careful_step\<^sup>*\<^sup>* s1 s' \<and> m_sessionEpoch (sys_ports s1 ! i) \<noteq> e"
proof -
  have inv: "death_inv s" by (rule death.reachable_inv [OF _ assms(1)]) blast
  have "doomed i e s"
    using assms(4-7) by (force simp: doomed_def notice_defs)
  moreover have "\<not> doomed i e s'"
    using death.inv_steps [OF inv assms(2)] assms(3) resting_not_doomed by blast
  ultimately show ?thesis using doomed_run [OF assms(2) inv] by blast
qed

text \<open>
  C35: no deferred clean-up is forgotten in the runs in which no close stage of a clean-up meets a
  started port. At every moment of such a run, a port with a clean-up pending has a thread that
  will look for it or end the session itself; so none is pending when all calls have returned.
  \<open>deferred_cleanup_can_be_lost\<close> is a run of the other kind.
\<close>

theorem pending_cleanup_has_owner:
  assumes "careful_step\<^sup>*\<^sup>* (boot_system limit cfgs) s" and "i < length (sys_ports s)"
    and "m_deathCleanupPending (sys_ports s ! i)"
  shows "(\<exists>t. (i, t) \<in> set (sys_threads s) \<and> carrier (sys_ports s ! i) t) \<and> \<not> at_rest s"
proof -
  have inv: "death_inv s" by (rule death.reachable_inv [OF _ assms(1)]) blast
  then show ?thesis
    using death_invD [OF inv assms(2,3)] resting_not_pending [OF inv _ assms(2)] assms(3)
    by (force simp: in_hands_def)
qed

theorem pending_cleanup_has_owner_witness:
  "map m_deathCleanupPending (sys_ports deferred) = [True] \<and> \<not> at_rest deferred"
proof -
  have p: "length (sys_ports deferred) = 1" "m_deathCleanupPending (sys_ports deferred ! 0)" by code_simp+
  then have "\<not> at_rest deferred"
    using pending_cleanup_has_owner [OF deferred_reachable, of 0] by simp
  with p show ?thesis by (cases "sys_ports deferred") auto
qed

text \<open>
  C34: a death notice acts on its own session only. When the port has moved on from the epoch the
  notice was made for, under any interleaving whatsoever, no action of the clean-up changes the port, however late it comes.
\<close>

theorem stale_death_notice_is_harmless:
  assumes "sys_step\<^sup>*\<^sup>* (boot_system limit cfgs) s" and "k < length (sys_threads s)"
    and "sys_threads s ! k = (i, t)" and "notice_epoch t = Some e" and "m_sessionEpoch (sys_ports s ! i) \<noteq> e"
  shows "sys_ports (act env k s) = sys_ports s \<and>
    (\<exists>t'. sys_threads (act env k s) ! k = (i, t') \<and>
       (notice_epoch t' = Some e \<or> t' = Finished StatusOk None))"
proof -
  have inv: "notice_inv s" by (rule notice.reachable_inv [OF _ assms(1)]) blast
  have "(i, t) \<in> set (sys_threads s)" using assms(2,3) by (metis nth_mem)
  then have "notice_ok t (sys_ports s ! i)" using inv by (auto simp: notice_inv_def)
  then have "\<exists>t' g' es. micro env t (sys_ports s ! i) (sys_globals s) = (t', sys_ports s ! i, g', es) \<and>
      (notice_epoch t' = Some e \<or> t' = Finished StatusOk None)"
    using assms(4,5) by (cases t) (auto simp: notice_defs phase_claim_def cleanupStopStage_def cleanupCloseStage_def)
  then obtain t' g' es where m: "micro env t (sys_ports s ! i) (sys_globals s) = (t', sys_ports s ! i, g', es)"
    "notice_epoch t' = Some e \<or> t' = Finished StatusOk None" by blast
  with act_shape [OF assms(3) m(1)] assms(2) show ?thesis by simp
qed

theorem stale_death_notice_is_harmless_witness:
  "let s = run_schedule demo_env (replicate 10 3) dying in sys_ports (act demo_env 4 s) = sys_ports s"
proof -
  let ?s = "run_schedule demo_env (replicate 10 3) dying"
  have "careful_step\<^sup>*\<^sup>* dying ?s" by (rule careful_schedule_run) code_simp
  with dying_reachable have "careful_step\<^sup>*\<^sup>* (boot_system 1 demo_ports) ?s" by (rule rtranclp_trans)
  then have r: "sys_step\<^sup>*\<^sup>* (boot_system 1 demo_ports) ?s" by (rule careful_sys_steps)
  have n: "4 < length (sys_threads ?s)" "fst (sys_threads ?s ! 4) = 0"
    "notice_epoch (snd (sys_threads ?s ! 4)) = Some 1" "m_sessionEpoch (sys_ports ?s ! 0) \<noteq> 1"
    by code_simp+
  then have "sys_threads ?s ! 4 = (0, snd (sys_threads ?s ! 4))" by (metis prod.collapse)
  from stale_death_notice_is_harmless [OF r n(1) this n(3,4)] show ?thesis by (simp add: Let_def)
qed

end
