(* ===== verification/Service_Death.thy ===== *)
theory Service_Death
  imports Service_Liveness Death_Cleanup
begin

text \<open>
  \<open>Death_Cleanup\<close> says what has become of the session of a dead client when all calls have
  returned, \<open>Service_Liveness\<close> that all calls do return. Together: in the running service, once
  calls and messages cease, a client's death has ended its session, unless a close stage of a
  clean-up met a started port.
\<close>

section \<open>Careful runs of the process\<close>

text \<open>
  A run in which no close stage of a clean-up is scheduled at a moment when its port is STARTED,
  the case of \<open>deferred_cleanup_can_be_lost\<close>.
\<close>

definition careful_picks :: "(nat \<Rightarrow> process_action) \<Rightarrow> (nat \<Rightarrow> process) \<Rightarrow> bool" where
  "careful_picks picks run \<longleftrightarrow>
     (\<forall>n k env. picks n = ThreadRuns k env \<longrightarrow>
        (let s = pr_system (run n) in
         k < length (sys_threads s) \<longrightarrow> \<not> misses (snd (sys_threads s ! k)) (sys_ports s ! fst (sys_threads s ! k))))"

lemma workerTurn_careful: "careful_step\<^sup>=\<^sup>= (pr_system s) (pr_system (workerTurn gm om s))"
proof -
  have "careful_step t (invoke i (DataBegin (UtMessage gm (Some kvp))) t)" if "i < length (sys_ports t)" for i kvp t
    using that by (auto simp: is_entry_def intro: careful_call)
  then show ?thesis
    by (auto simp: workerTurn_def case_prod_unfold Let_def dest: routeMessage_place split: option.split)
qed

lemma perform_careful:
  assumes "\<forall>k env. a = ThreadRuns k env \<longrightarrow> k < length (sys_threads (pr_system s)) \<longrightarrow>
    \<not> misses (snd (sys_threads (pr_system s) ! k)) (sys_ports (pr_system s) ! fst (sys_threads (pr_system s) ! k))"
  shows "careful_step\<^sup>=\<^sup>= (pr_system s) (pr_system (perform gm om a s))"
  using assms workerTurn_careful [of s gm om]
  by (cases a) (auto simp: messageArrives_def client_entry_def intro: careful_call careful_action)

lemma run_careful:
  assumes "careful_picks picks (process_run gm om s0 picks)"
  shows "careful_step\<^sup>=\<^sup>= (pr_system (process_run gm om s0 picks n)) (pr_system (process_run gm om s0 picks (Suc n)))"
  using assms perform_careful [of "picks n" "process_run gm om s0 picks n" gm om]
  by (auto simp: careful_picks_def process_run_Suc Let_def)

lemma run_death_inv:
  assumes "careful_picks picks (process_run gm om s0 picks)" and "death_inv (pr_system s0)"
  shows "death_inv (pr_system (process_run gm om s0 picks n))"
proof (induction n)
  case (Suc n)
  then show ?case using run_careful [OF assms(1), of n] death.inv_step by (auto simp del: process_run_Suc)
qed (simp add: process_run_def assms(2))

lemma doomed_along:
  assumes careful: "careful_picks picks (process_run gm om s0 picks)" and boot: "death_inv (pr_system s0)"
    and "doomed i e (pr_system (process_run gm om s0 picks n))" and "n \<le> m"
    and same: "\<And>l. n \<le> l \<Longrightarrow> l \<le> m \<Longrightarrow> m_sessionEpoch (sys_ports (pr_system (process_run gm om s0 picks l)) ! i) = e"
  shows "doomed i e (pr_system (process_run gm om s0 picks m))"
  using assms(4) same
proof (induction m rule: dec_induct)
  case (step m)
  then have "doomed i e (pr_system (process_run gm om s0 picks m))" by simp
  moreover have "m_sessionEpoch (sys_ports (pr_system (process_run gm om s0 picks (Suc m))) ! i) = e"
    using step by simp
  ultimately show ?case
    using run_careful [OF careful, of m] doomed_step [OF run_death_inv [OF careful boot, of m]] by fastforce
qed (use assms(3) in simp)

section \<open>Properties\<close>

text \<open>
  C13: once the traffic ceases, a client's death has ended its session. Take a served process
  under a fair scheduler whose worker is never told to stop, with no new call and no new message
  from some time on, in which no close stage of a clean-up meets a started port. If a death notice
  for the current session of an open port has been delivered, the port later leaves that session.
  Calls that never cease could defer the clean-up again and again.
\<close>

theorem dead_client_is_cleaned_up:
  assumes "run_service uenv longBits bufSize openKvp caps0 addServiceOk argv = Serving s0"
    and "run = process_run gm om s0 picks" and "fair picks" and "careful_picks picks run"
    and "\<forall>n. \<not> pr_stopUtWorker (run n)"
    and "\<forall>m \<ge> q. (\<nexists>i t. picks m = ClientCalls i t) \<and> (\<nexists>key instance. picks m = MessageIn key instance)"
    and "i < length (sys_ports (pr_system (run n)))" and "(i, DeathBegin e) \<in> set (sys_threads (pr_system (run n)))"
    and "m_sessionEpoch (sys_ports (pr_system (run n)) ! i) = e" and "m_state (sys_ports (pr_system (run n)) ! i) \<noteq> CLOSED"
  shows "\<exists>m \<ge> n. m_sessionEpoch (sys_ports (pr_system (run m)) ! i) \<noteq> e"
proof -
  obtain mg g es st where mg: "s0 = started_process mg g"
    "CompositeInputManager uenv longBits bufSize openKvp caps0 st initial_globals = (mg, g, es)"
    using serving_started [OF assms(1)] by metis
  have run: "fair_run gm om picks run" using assms(2,3) mg(1) by (auto simp: fair_run_def)
  obtain limit cfgs where "pr_system s0 = boot_system limit cfgs"
    using constructed_booted [OF mg(2)] mg(1) by metis
  then have boot: "death_inv (pr_system s0)" using death_inv_boot by metis
  obtain m where m: "q \<le> m" "\<forall>m' \<ge> m. at_rest (pr_system (run m')) \<and> pr_taken (run m') = pr_arrived (run m')"
    using comes_to_rest [OF run assms(5,6)] by blast
  let ?m = "max m n"
  have "doomed i e (pr_system (run n))"
    using assms(7-10) by (force simp: doomed_def notice_defs)
  moreover have "\<not> doomed i e (pr_system (run ?m))"
    using m(2) resting_not_doomed run_death_inv [OF _ boot] assms(2,4) by simp
  ultimately obtain l where "n \<le> l" "m_sessionEpoch (sys_ports (pr_system (run l)) ! i) \<noteq> e"
    using doomed_along [OF _ boot, of picks gm om i e n ?m] assms(2,4) by (metis max.cobounded2)
  then show ?thesis by blast
qed

section \<open>A client that dies while its port is opening\<close>

text \<open>Threads that start no port, on ports that are not started.\<close>

definition starts :: "task \<Rightarrow> bool" where
  "starts t \<longleftrightarrow>
     (case t of
        StartAcquire \<Rightarrow> True
      | StartEnter \<Rightarrow> True
      | StartNotify _ _ \<Rightarrow> True
      | StartReadSignal \<Rightarrow> True
      | StartSignalNotify _ _ \<Rightarrow> True
      | StartStarted \<Rightarrow> True
      | StartStartedNotify _ _ \<Rightarrow> True
      | StartBaseline \<Rightarrow> True
      | StartTelemetry _ _ _ \<Rightarrow> True
      | _ \<Rightarrow> False)"

definition nothing_starts :: "process \<Rightarrow> bool" where
  "nothing_starts s \<longleftrightarrow>
     (\<forall>th \<in> set (sys_threads (pr_system s)). \<not> starts (snd th) \<and> fst th < length (sys_ports (pr_system s))) \<and>
     (\<forall>p \<in> set (sys_ports (pr_system s)). m_state p \<noteq> STARTED)"

lemma micro_starts_nothing:
  assumes "\<not> starts t" and "m_state p \<noteq> STARTED"
  shows "\<not> starts (fst (micro env t p g)) \<and> m_state (fst (snd (micro env t p g))) \<noteq> STARTED"
proof (cases t)
  case (DataBegin d)
  then show ?thesis
    using assms data_section_keeps(1) by (simp add: starts_def case_prod_unfold Let_def)
next
  case (DeathBegin e)
  then show ?thesis
    using assms by (cases "m_state p") (simp_all add: starts_def cleanupStopStage_def)
next
  case (DeathClosing e)
  then show ?thesis
    using assms by (cases "m_state p") (simp_all add: starts_def cleanupCloseStage_def setStateLocked_def)
qed (use assms in \<open>auto simp: starts_def case_prod_unfold Let_def setStateLocked_def
    split: option.split close_entry.split dest!: enter_result\<close>)

lemma act_starts_nothing:
  assumes "nothing_starts s" and "k < length (sys_threads (pr_system s))"
  shows "nothing_starts (s\<lparr>pr_system := act env k (pr_system s)\<rparr>)"
proof -
  let ?y = "pr_system s"
  obtain i t where th: "sys_threads ?y ! k = (i, t)" by fastforce
  obtain t' p' g' es where m: "micro env t (sys_ports ?y ! i) (sys_globals ?y) = (t', p', g', es)"
    by (cases "micro env t (sys_ports ?y ! i) (sys_globals ?y)") auto
  have t: "\<not> starts t" "i < length (sys_ports ?y)"
    using assms th by (metis nothing_starts_def nth_mem snd_conv, metis nothing_starts_def nth_mem fst_conv)
  then have "\<not> starts t' \<and> m_state p' \<noteq> STARTED"
    using micro_starts_nothing [OF t(1), of "sys_ports ?y ! i" env "sys_globals ?y"] assms(1) m
    by (simp add: nothing_starts_def)
  then show ?thesis
    using assms(1) t(2) set_update_subset_insert [of "sys_ports ?y" i p']
      set_update_subset_insert [of "sys_threads ?y" k "(i, t')"]
    by (fastforce simp: nothing_starts_def act_shape [OF th m])
qed

lemma worker_starts_nothing: "nothing_starts s \<Longrightarrow> nothing_starts (workerTurn gm om s)"
  by (auto simp: workerTurn_def nothing_starts_def invoke_def starts_def case_prod_unfold Let_def
      dest: routeMessage_place split: option.split)

lemma perform_starts_nothing:
  assumes "nothing_starts s" and "\<forall>i t. a = ClientCalls i t \<longrightarrow> \<not> starts t"
  shows "nothing_starts (perform gm om a s)"
proof (cases a)
  case (ClientCalls i t)
  then show ?thesis using assms by (auto simp: nothing_starts_def invoke_def)
next
  case (ThreadRuns k env)
  then show ?thesis using assms(1) act_starts_nothing by simp
next
  case WorkerRuns
  then show ?thesis using assms(1) worker_starts_nothing by simp
qed (use assms(1) in \<open>simp_all add: messageArrives_def nothing_starts_def\<close>)

lemma nothing_starts_careful:
  assumes "\<And>n. nothing_starts (run n)"
  shows "careful_picks picks run"
proof -
  have "\<not> misses (snd (sys_threads (pr_system (run n)) ! k))
      (sys_ports (pr_system (run n)) ! fst (sys_threads (pr_system (run n)) ! k))"
    if "k < length (sys_threads (pr_system (run n)))" for n k
  proof -
    have "sys_threads (pr_system (run n)) ! k \<in> set (sys_threads (pr_system (run n)))" using that by simp
    then have "m_state (sys_ports (pr_system (run n)) ! fst (sys_threads (pr_system (run n)) ! k)) \<noteq> STARTED"
      using assms [of n] by (auto simp: nothing_starts_def)
    then show ?thesis by (auto simp: misses_def split: task.split)
  qed
  then show ?thesis by (simp add: careful_picks_def Let_def)
qed

definition death_picks :: "nat \<Rightarrow> process_action" where
  "death_picks n =
     (if n = 0 then ClientCalls 0 (OpenBegin 5)
      else if n = 1 then ThreadRuns 0 demo_env
      else if n = 2 then ClientCalls 0 (DeathBegin 1)
      else demo_picks n)"

lemma demo_picks_kinds:
  "n \<noteq> 0 \<Longrightarrow> demo_picks n = WorkerRuns \<or> (\<exists>k. demo_picks n = ThreadRuns k demo_env)"
  by (auto simp: demo_picks_def split: nat.split)

lemma death_fair: "fair death_picks"
proof -
  have again: "\<exists>m \<ge> n. P (death_picks m)" if often: "\<forall>n. \<exists>m \<ge> n. P (demo_picks m)" for P n
  proof -
    obtain m where "n + 3 \<le> m" "P (demo_picks m)" using spec [OF often, of "n + 3"] by (elim exE conjE)
    then show ?thesis by (intro exI [of _ m]) (simp add: death_picks_def)
  qed
  have "\<exists>m \<ge> n. death_picks m = WorkerRuns" for n
    using demo_fair again [of "\<lambda>a. a = WorkerRuns"] by (simp add: fair_def)
  moreover have "\<exists>m \<ge> n. \<exists>env. death_picks m = ThreadRuns k env" for k n
    using demo_fair by (intro again [of "\<lambda>a. \<exists>env. a = ThreadRuns k env"]) (simp add: fair_def)
  ultimately show ?thesis by (simp add: fair_def)
qed

lemma death_picks_late: "3 \<le> n \<Longrightarrow> death_picks n = WorkerRuns \<or> (\<exists>k. death_picks n = ThreadRuns k demo_env)"
  using demo_picks_kinds [of n] by (simp add: death_picks_def)

lemma death_picks_early:
  "n < 3 \<Longrightarrow> death_picks n = ClientCalls 0 (OpenBegin 5) \<or> death_picks n = ThreadRuns 0 demo_env \<or>
     death_picks n = ClientCalls 0 (DeathBegin 1)"
  by (simp add: death_picks_def)

lemma death_picks_calls: "death_picks n = ClientCalls i t \<Longrightarrow> n < 3 \<and> \<not> starts t"
  using death_picks_late [of n] death_picks_early [of n] by (cases "n < 3") (auto simp: starts_def)

lemma death_picks_quiet:
  "3 \<le> n \<Longrightarrow> death_picks n \<noteq> ClientCalls i t" "death_picks n \<noteq> MessageIn key inst" "death_picks n \<noteq> StopRequested"
  using death_picks_late [of n] death_picks_early [of n] by (cases "n < 3"; auto)+

theorem dead_client_is_cleaned_up_witness:
  "\<exists>s0 m. run_service demo_ut_env 64 256 (\<lambda>path. Some (table_kvp demo_fields demo_lists)) demo_caps True
       [Some ''svc''] = Serving s0 \<and>
     m_sessionEpoch (sys_ports (pr_system (process_run scan_map (\<lambda>payload. None) s0 death_picks m)) ! 0) \<noteq> 1"
proof -
  let ?o = "\<lambda>path. Some (table_kvp demo_fields demo_lists)"
  let ?r = "run_service demo_ut_env 64 256 ?o demo_caps True [Some ''svc'']"
  let ?om = "\<lambda>payload. None :: kvp sp"
  obtain s0 where s0: "?r = Serving s0" and boot: "pr_system s0 =
      boot_system (hc_maximumConcurrentStartedPorts demo_config) (profile_ports demo_config)"
    using default_service [of ?o _ 256 demo_config 64 demo_ut_env demo_caps "''svc''"] demo_represents demo_wf
    by auto
  have stop0: "\<not> pr_stopUtWorker s0"
    using s0 by (auto simp: run_service_def CompositeInputManager_def started_process_def default_main case_prod_unfold Let_def)
  let ?run = "process_run scan_map ?om s0 death_picks"
  obtain cfg cfgs' where c: "profile_ports demo_config = cfg # cfgs'"
    by (simp add: profile_ports_def demo_config_def)
  have p: "m_state (boot_port cfg) = CLOSED" "m_sessionEpoch (boot_port cfg) = 0"
    by (simp, cases cfg, simp add: boot_port_def resetHardwareBaselineForBoot_def setCapabilities_def setPortInfo_def
        CompositeInputPort_def Let_def)
  have "nothing_starts s0" using boot by (auto simp: nothing_starts_def boot_system_def)
  then have quiet: "nothing_starts (?run n)" for n
    by (induction n) (auto simp: process_run_Suc intro!: perform_starts_nothing dest: death_picks_calls,
        simp add: process_run_def)
  have go: "\<forall>n. \<not> pr_stopUtWorker (?run n)"
  proof
    show "\<not> pr_stopUtWorker (?run n)" for n
    proof (induction n)
      case (Suc n)
      then show ?case
        using death_picks_quiet(3) [of n]
        by (cases "death_picks n") (auto simp: process_run_Suc messageArrives_def workerTurn_def case_prod_unfold
            Let_def split: option.split)
    qed (simp add: process_run_def stop0)
  qed
  have three: "?run 3 = s0\<lparr>pr_system := invoke 0 (DeathBegin 1) (act demo_env 0 (invoke 0 (OpenBegin 5) (pr_system s0)))\<rparr>"
    by (simp add: numeral_3_eq_3 process_run_def death_picks_def client_entry_def is_entry_def boot c boot_system_def
        invoke_def act_def case_prod_unfold Let_def)
  have opened: "i < length (sys_ports (pr_system (?run 3)))" "m_sessionEpoch (sys_ports (pr_system (?run 3)) ! i) = 1"
    "m_state (sys_ports (pr_system (?run 3)) ! i) \<noteq> CLOSED" "(i, DeathBegin 1) \<in> set (sys_threads (pr_system (?run 3)))"
    if "i = 0" for i
    using p that by (simp_all add: three boot c boot_system_def invoke_def act_def openEnter_def setStateLocked_def Let_def)
  have q: "\<forall>m \<ge> 3. (\<nexists>i t. death_picks m = ClientCalls i t) \<and> (\<nexists>key instance. death_picks m = MessageIn key instance)"
    using death_picks_quiet by blast
  obtain m where "m_sessionEpoch (sys_ports (pr_system (?run m)) ! 0) \<noteq> 1"
    using dead_client_is_cleaned_up [OF s0 refl death_fair nothing_starts_careful [OF quiet] go q
        opened(1) opened(4) opened(2,3), of 0] by auto
  with s0 show ?thesis by blast
qed

end
