(* ===== verification/Profile_Document.thy ===== *)
theory Profile_Document
  imports Parse_Config
begin

text \<open>
  Profiles as documents. The parser reads an opened profile through ut-core, by dotted keys. Here
  the profile is the tree that a YAML file denotes and the ut-core functions look a key up in it
  segment by segment, as the HFP format is documented; a configuration is written as such
  a tree, and the parser reads it back.
\<close>

section \<open>Documents\<close>

datatype document =
    Scalar string
  | Sequence "document list"
  | Mapping "(string \<times> document) list"

definition dot :: char where "dot = CHR ''.''"

fun split_path :: "string \<Rightarrow> string list" where
  "split_path [] = [[]]"
| "split_path (c # cs) =
     (if c = dot then [] # split_path cs
      else case split_path cs of [] \<Rightarrow> [[c]] | w # ws \<Rightarrow> (c # w) # ws)"

definition child :: "string \<Rightarrow> document \<Rightarrow> document option" where
  "child s d =
     (case d of
        Scalar v \<Rightarrow> None
      | Sequence ds \<Rightarrow> map_of (zip (map show_nat [0..<length ds]) ds) s
      | Mapping entries \<Rightarrow> map_of entries s)"

fun walk :: "string list \<Rightarrow> document \<Rightarrow> document option" where
  "walk [] d = Some d"
| "walk (s # ss) d = (case child s d of None \<Rightarrow> None | Some x \<Rightarrow> walk ss x)"

definition document_at :: "document \<Rightarrow> string \<Rightarrow> document option" where
  "document_at d key = walk (split_path key) d"

text \<open>The opened document. A text that does not fit the buffer is not delivered.\<close>

definition document_kvp :: "document \<Rightarrow> kvp" where
  "document_kvp d =
     \<lparr>ut_kvp_fieldPresent = (\<lambda>k. document_at d k \<noteq> None),
      ut_kvp_getBoolField = (\<lambda>k. document_at d k = Some (Scalar ''true'')),
      ut_kvp_getUInt32Field = (\<lambda>k. 0),
      ut_kvp_getUInt64Field = (\<lambda>k. 0),
      ut_kvp_getFloatField = (\<lambda>k. FFin 0 0),
      ut_kvp_getStringField =
        (\<lambda>k bufSize. case document_at d k of
                    Some (Scalar v) \<Rightarrow>
                      if length v < bufSize then (UT_KVP_STATUS_SUCCESS, v) else (UT_KVP_STATUS_FAILURE, [])
                  | _ \<Rightarrow> (UT_KVP_STATUS_FAILURE, [])),
      ut_kvp_getListCount =
        (\<lambda>k. case document_at d k of Some (Sequence ds) \<Rightarrow> of_nat (length ds) | _ \<Rightarrow> 0)\<rparr>"

text \<open>Texts fit the buffer and lists their 32-bit count.\<close>

fun document_fits :: "nat \<Rightarrow> document \<Rightarrow> bool" where
  "document_fits bufSize (Scalar v) = (length v < bufSize)"
| "document_fits bufSize (Sequence ds) = (length ds < 2 ^ 32 \<and> list_all (document_fits bufSize) ds)"
| "document_fits bufSize (Mapping entries) = list_all (\<lambda>e. document_fits bufSize (snd e)) entries"

section \<open>Looking up\<close>

lemma split_path_not_Nil [simp]: "split_path s \<noteq> []"
  by (induction s) (auto split: list.split)

lemma split_path_word: "dot \<notin> set s \<Longrightarrow> split_path s = [s]"
  by (induction s) auto

lemma split_path_snoc:
  "dot \<notin> set s \<Longrightarrow> split_path (key @ dot # s) = split_path key @ [s]"
proof (induction key)
  case (Cons c key)
  then show ?case by (cases "split_path key") auto
qed (simp add: split_path_word)

lemma walk_snoc: "walk (ss @ [s]) d = Option.bind (walk ss d) (child s)"
  by (induction ss arbitrary: d) (auto split: option.split)

lemma document_at_snoc:
  "dot \<notin> set s \<Longrightarrow> document_at d (key @ dot # s) = Option.bind (document_at d key) (child s)"
  by (simp add: document_at_def split_path_snoc walk_snoc)

lemma document_at_word: "dot \<notin> set s \<Longrightarrow> document_at d s = child s d"
  by (simp add: document_at_def split_path_word split: option.split)

lemma show_nat_inj: "show_nat m = show_nat n \<longleftrightarrow> m = n"
  by (metis show_nat_value)

lemma dot_not_digit: "dot \<notin> set (show_nat n)"
proof
  assume "dot \<in> set (show_nat n)"
  then have "is_digit 10 dot" using show_nat_digits [of n] by (auto simp: list_all_iff)
  then show False by (simp add: dot_def is_digit_def digit_value_def)
qed

lemma child_item: "i < length ds \<Longrightarrow> child (show_nat i) (Sequence ds) = Some (ds ! i)"
  using map_of_zip_nth [of "map show_nat [0..<length ds]" ds i]
  by (simp add: child_def distinct_map inj_on_def show_nat_inj)

lemma child_fits: "child s d = Some x \<Longrightarrow> document_fits bufSize d \<Longrightarrow> document_fits bufSize x"
  by (cases d) (auto simp: child_def list_all_iff dest!: map_of_SomeD set_zip_rightD)

lemma walk_fits: "walk ss d = Some x \<Longrightarrow> document_fits bufSize d \<Longrightarrow> document_fits bufSize x"
  by (induction ss arbitrary: d) (auto dest: child_fits split: option.splits)

lemma document_at_fits: "document_at d key = Some x \<Longrightarrow> document_fits bufSize d \<Longrightarrow> document_fits bufSize x"
  by (simp add: document_at_def walk_fits)

section \<open>Configurations as documents\<close>

definition entry_document :: "property_metadata_config \<Rightarrow> document" where
  "entry_document e =
     Mapping [(''key'', Scalar (mc_key e)), (''type'', Scalar (mc_type e)),
       (''readOnly'', Scalar (show_bool (mc_readOnly e))), (''isMetric'', Scalar (show_bool (mc_isMetric e))),
       (''description'', Scalar (mc_description e))]"

definition port_document :: "port_config \<Rightarrow> document" where
  "port_document p =
     Mapping [(''id'', Scalar (show_int (cp_id p))), (''name'', Scalar (cp_name p)),
       (''description'', Scalar (cp_description p)),
       (''supportedProperties'', Sequence (map Scalar (cp_supportedProperties p))),
       (''propertyMetadata'', Sequence (map entry_document (cp_propertyMetadata p)))]"

definition platform_document :: "hfp_config \<Rightarrow> document" where
  "platform_document c =
     Mapping [(''halVersion'', Scalar (hc_halVersion c)), (''maxPorts'', Scalar (show_int (hc_maxPorts c))),
       (''maximumConcurrentStartedPorts'', Scalar (show_int (hc_maximumConcurrentStartedPorts c))),
       (''supportedProperties'', Sequence (map Scalar (hc_supportedProperties c))),
       (''propertyMetadata'', Sequence (map entry_document (hc_propertyMetadata c))),
       (''features'', Mapping [(''macrovisionDetectionSupported'',
          Scalar (show_bool (hc_macrovisionDetectionSupported c)))])]"

definition config_document :: "hfp_config \<Rightarrow> document" where
  "config_document c =
     Mapping [(''compositeinput'', Mapping
       [(''interfaceVersion'', Scalar (hc_interfaceVersion c)),
        (''ports'', Sequence (map port_document (hc_ports c))),
        (''platformCapabilities'', platform_document c)])]"

lemma has_scalar:
  "document_at d key = Some (Scalar v) \<Longrightarrow> document_fits bufSize d \<Longrightarrow> has_field bufSize (document_kvp d) key v"
  using document_at_fits [of d key "Scalar v" bufSize] by (simp add: has_field_def document_kvp_def)

lemma has_sequence:
  assumes "document_at d key = Some (Sequence (map f xs))" and "document_fits bufSize d"
    and "\<And>x k. x \<in> set xs \<Longrightarrow> document_at d k = Some (f x) \<Longrightarrow> has_item x k"
  shows "has_list (document_kvp d) key has_item xs"
proof -
  have "length xs < 2 ^ 32" using document_at_fits [OF assms(1,2)] by simp
  then have "unat (of_nat (length xs) :: uint32) = length xs"
    by (simp add: unat_of_nat take_bit_nat_eq_self_iff)
  moreover have "document_at d (key @ dot # show_nat i) = Some (f (xs ! i))" if "i < length xs" for i
    using that by (simp add: document_at_snoc dot_not_digit assms(1) child_item)
  ultimately show ?thesis
    using assms(1,3) by (auto simp: has_list_def document_kvp_def list_all_length nth_enumerate_eq dot_def)
qed

text \<open>The fields of a mapping, by the key of the mapping.\<close>

lemma mapping_field:
  "document_at d key = Some (Mapping entries) \<Longrightarrow> dot \<notin> set s \<Longrightarrow>
   document_at d (key @ dot # s) = map_of entries s"
  by (simp add: document_at_snoc child_def)

lemma entry_represented:
  assumes "document_at d key = Some (entry_document e)" and "document_fits bufSize d"
  shows "has_entry bufSize (document_kvp d) e key"
proof -
  note at = mapping_field [OF assms(1) [unfolded entry_document_def]]
  show ?thesis
    using at [of "''key''"] at [of "''type''"] at [of "''readOnly''"] at [of "''isMetric''"] at [of "''description''"]
    by (simp add: has_entry_def has_scalar [OF _ assms(2)] dot_def)
qed

lemma port_represented:
  assumes "document_at d key = Some (port_document p)" and "document_fits bufSize d"
  shows "has_port bufSize (document_kvp d) p key"
proof -
  note at = mapping_field [OF assms(1) [unfolded port_document_def]]
  have "has_list (document_kvp d) (key @ ''.supportedProperties'') (\<lambda>v k. has_field bufSize (document_kvp d) k v)
      (cp_supportedProperties p)"
    using at [of "''supportedProperties''"] by (intro has_sequence [OF _ assms(2)] has_scalar [OF _ assms(2)])
      (simp_all add: dot_def)
  moreover have "has_list (document_kvp d) (key @ ''.propertyMetadata'') (has_entry bufSize (document_kvp d))
      (cp_propertyMetadata p)"
    using at [of "''propertyMetadata''"] by (intro has_sequence [OF _ assms(2)] entry_represented [OF _ assms(2)])
      (simp_all add: dot_def)
  ultimately show ?thesis
    using at [of "''id''"] at [of "''name''"] at [of "''description''"]
    by (simp add: has_port_def has_scalar [OF _ assms(2)] dot_def)
qed

lemma config_represented:
  assumes "document_fits bufSize (config_document c)"
  shows "represents bufSize (document_kvp (config_document c)) c"
proof -
  let ?d = "config_document c"
  note scalar = has_scalar [OF _ assms]
  have root: "document_at ?d ''compositeinput'' = Some (Mapping
      [(''interfaceVersion'', Scalar (hc_interfaceVersion c)),
       (''ports'', Sequence (map port_document (hc_ports c))),
       (''platformCapabilities'', platform_document c)])"
    by (simp add: config_document_def document_at_word dot_def child_def)
  note top = mapping_field [OF root]
  have platform: "document_at ?d kPlatformCapabilitiesKey = Some (platform_document c)"
    using top [of "''platformCapabilities''"] by (simp add: kPlatformCapabilitiesKey_def dot_def)
  note at = mapping_field [OF platform [unfolded platform_document_def]]
  have features: "document_at ?d (kPlatformCapabilitiesKey @ ''.features'') =
      Some (Mapping [(''macrovisionDetectionSupported'', Scalar (show_bool (hc_macrovisionDetectionSupported c)))])"
    using at [of "''features''"] by (simp add: dot_def)
  have "has_list (document_kvp ?d) kPortsKey (has_port bufSize (document_kvp ?d)) (hc_ports c)"
    using top [of "''ports''"] by (intro has_sequence [OF _ assms] port_represented [OF _ assms])
      (simp_all add: kPortsKey_def dot_def)
  moreover have "has_list (document_kvp ?d) (kPlatformCapabilitiesKey @ ''.supportedProperties'')
      (\<lambda>v k. has_field bufSize (document_kvp ?d) k v) (hc_supportedProperties c)"
    using at [of "''supportedProperties''"] by (intro has_sequence [OF _ assms] scalar) (simp_all add: dot_def)
  moreover have "has_list (document_kvp ?d) (kPlatformCapabilitiesKey @ ''.propertyMetadata'')
      (has_entry bufSize (document_kvp ?d)) (hc_propertyMetadata c)"
    using at [of "''propertyMetadata''"] by (intro has_sequence [OF _ assms] entry_represented [OF _ assms])
      (simp_all add: dot_def)
  moreover have "ut_kvp_fieldPresent (document_kvp ?d) kCompositeInputRoot"
    "ut_kvp_fieldPresent (document_kvp ?d) kPlatformCapabilitiesKey"
    using root platform by (simp_all add: document_kvp_def kCompositeInputRoot_def)
  moreover have "has_field bufSize (document_kvp ?d) kInterfaceVersionKey (hc_interfaceVersion c)"
    using top [of "''interfaceVersion''"] by (intro scalar) (simp add: kInterfaceVersionKey_def dot_def)
  moreover have "has_field bufSize (document_kvp ?d) (kPlatformCapabilitiesKey @ ''.halVersion'') (hc_halVersion c)"
    using at [of "''halVersion''"] by (intro scalar) (simp add: dot_def)
  moreover have "has_field bufSize (document_kvp ?d) (kPlatformCapabilitiesKey @ ''.maxPorts'')
      (show_int (hc_maxPorts c))"
    using at [of "''maxPorts''"] by (intro scalar) (simp add: dot_def)
  moreover have "has_field bufSize (document_kvp ?d) (kPlatformCapabilitiesKey @ ''.maximumConcurrentStartedPorts'')
      (show_int (hc_maximumConcurrentStartedPorts c))"
    using at [of "''maximumConcurrentStartedPorts''"] by (intro scalar) (simp add: dot_def)
  moreover have "has_field bufSize (document_kvp ?d)
      (kPlatformCapabilitiesKey @ ''.features.macrovisionDetectionSupported'')
      (show_bool (hc_macrovisionDetectionSupported c))"
    using mapping_field [OF features, of "''macrovisionDetectionSupported''"] by (intro scalar) (simp add: dot_def)
  ultimately show ?thesis
    unfolding represents_def by blast
qed

section \<open>Properties\<close>

text \<open>
  C38: writing and reading a profile. Any well-formed configuration, written as a document and
  opened with look-up by dotted keys, is parsed back to exactly that configuration, provided its
  texts fit the buffer of ut-core and its lists a 32-bit count.
\<close>

theorem profile_document_roundtrip:
  assumes "wf_config c" and "document_fits bufSize (config_document c)" and "32 \<le> longBits"
    and "path \<noteq> []"
  shows "parseConfig longBits bufSize (\<lambda>f. if f = path then Some (document_kvp (config_document c)) else None)
      (Some path) outError = (True, c, map_option (\<lambda>_. []) outError)"
  using config_represented [OF assms(2)] assms(1,3,4) by (intro parse_accepts_represented) simp_all

theorem profile_document_roundtrip_witness:
  "parseConfig 64 256 (\<lambda>f. if f = ''hfp.yaml'' then Some (document_kvp (config_document demo_config)) else None)
      (Some ''hfp.yaml'') (Some ''old'') = (True, demo_config, Some [])"
proof -
  have "document_fits 256 (config_document demo_config)"
    by (simp add: config_document_def port_document_def platform_document_def entry_document_def demo_config_def
      demo_metadata_def show_nat_zero show_bool_def show_int_def show_nat.simps [of "Suc 0"])
  from profile_document_roundtrip [OF demo_wf this, of 64 "''hfp.yaml''" "Some ''old''"]
  show ?thesis by simp
qed

end
