(* ===== verification/Shipped_Profile.thy ===== *)
theory Shipped_Profile
  imports Service_Process Profile_Document
begin

text \<open>
  The service as it is shipped: the profile \<open>vcomponent_configurations/hfp-compositeinput.yaml\<close>
  as the document that the file holds, the configuration it denotes, and what the theorems on
  parser, manager, ports and process say about a service that is started with it and without
  options.
\<close>

section \<open>The profile\<close>

text \<open>The file, text by text. The properties and their metadata are the same at all three levels.\<close>

definition shipped_tokens :: document where
  "shipped_tokens = Sequence
     [Scalar ''SIGNAL_STRENGTH'', Scalar ''SIGNAL_QUALITY'', Scalar ''METRIC_SIGNAL_LOCK_TIME'',
      Scalar ''METRIC_SIGNAL_DROPS'', Scalar ''METRIC_UPTIME'', Scalar ''METRIC_SIGNAL_LOCK_COUNT'',
      Scalar ''METRIC_LAST_SIGNAL_LOCK_TIME'', Scalar ''METRIC_LAST_RESET_TIMESTAMP'']"

definition shipped_item :: "string \<Rightarrow> string \<Rightarrow> string \<Rightarrow> string \<Rightarrow> string \<Rightarrow> document" where
  "shipped_item k t readOnly isMetric d =
     Mapping [(''key'', Scalar k), (''type'', Scalar t), (''readOnly'', Scalar readOnly),
       (''isMetric'', Scalar isMetric), (''description'', Scalar d)]"

definition shipped_items :: document where
  "shipped_items = Sequence
     [shipped_item ''SIGNAL_STRENGTH'' ''LONG'' ''true'' ''false'' ''Signal strength in dBm'',
      shipped_item ''SIGNAL_QUALITY'' ''INTEGER'' ''true'' ''false''
        ''Aggregated signal quality percentage (0..100)'',
      shipped_item ''METRIC_SIGNAL_LOCK_TIME'' ''LONG'' ''true'' ''true''
        ''Average signal lock time in milliseconds'',
      shipped_item ''METRIC_SIGNAL_DROPS'' ''LONG'' ''true'' ''true''
        ''Total count of signal drops since last reset'',
      shipped_item ''METRIC_UPTIME'' ''LONG'' ''true'' ''true'' ''Total uptime in milliseconds'',
      shipped_item ''METRIC_SIGNAL_LOCK_COUNT'' ''LONG'' ''true'' ''true''
        ''Total count of successful signal lock acquisitions since last reset'',
      shipped_item ''METRIC_LAST_SIGNAL_LOCK_TIME'' ''LONG'' ''true'' ''true''
        ''Most recent signal lock time in milliseconds'',
      shipped_item ''METRIC_LAST_RESET_TIMESTAMP'' ''LONG'' ''true'' ''true''
        ''Wall-clock timestamp (ms since epoch) when metrics were last reset'']"

definition shipped_document :: document where
  "shipped_document = Mapping [(''compositeinput'', Mapping
     [(''interfaceVersion'', Scalar ''current''),
      (''ports'', Sequence
        [Mapping [(''id'', Scalar ''0''), (''name'', Scalar ''Front Panel Composite''),
           (''description'', Scalar ''Front panel composite video input''),
           (''supportedProperties'', shipped_tokens), (''propertyMetadata'', shipped_items)],
         Mapping [(''id'', Scalar ''1''), (''name'', Scalar ''Rear Composite''),
           (''description'', Scalar ''Rear panel composite video input''),
           (''supportedProperties'', shipped_tokens), (''propertyMetadata'', shipped_items)]]),
      (''platformCapabilities'', Mapping
        [(''halVersion'', Scalar ''1.0.0''), (''maxPorts'', Scalar ''2''),
         (''maximumConcurrentStartedPorts'', Scalar ''1''),
         (''supportedProperties'', shipped_tokens), (''propertyMetadata'', shipped_items),
         (''features'', Mapping [(''macrovisionDetectionSupported'', Scalar ''false'')])])])]"

text \<open>The configuration that it denotes.\<close>

definition shipped_properties :: "string list" where
  "shipped_properties =
     [''SIGNAL_STRENGTH'', ''SIGNAL_QUALITY'', ''METRIC_SIGNAL_LOCK_TIME'', ''METRIC_SIGNAL_DROPS'',
      ''METRIC_UPTIME'', ''METRIC_SIGNAL_LOCK_COUNT'', ''METRIC_LAST_SIGNAL_LOCK_TIME'',
      ''METRIC_LAST_RESET_TIMESTAMP'']"

definition shipped_metadata :: "property_metadata_config list" where
  "shipped_metadata =
     [\<lparr>mc_key = ''SIGNAL_STRENGTH'', mc_type = ''LONG'', mc_readOnly = True, mc_isMetric = False,
       mc_description = ''Signal strength in dBm''\<rparr>,
      \<lparr>mc_key = ''SIGNAL_QUALITY'', mc_type = ''INTEGER'', mc_readOnly = True, mc_isMetric = False,
       mc_description = ''Aggregated signal quality percentage (0..100)''\<rparr>,
      \<lparr>mc_key = ''METRIC_SIGNAL_LOCK_TIME'', mc_type = ''LONG'', mc_readOnly = True, mc_isMetric = True,
       mc_description = ''Average signal lock time in milliseconds''\<rparr>,
      \<lparr>mc_key = ''METRIC_SIGNAL_DROPS'', mc_type = ''LONG'', mc_readOnly = True, mc_isMetric = True,
       mc_description = ''Total count of signal drops since last reset''\<rparr>,
      \<lparr>mc_key = ''METRIC_UPTIME'', mc_type = ''LONG'', mc_readOnly = True, mc_isMetric = True,
       mc_description = ''Total uptime in milliseconds''\<rparr>,
      \<lparr>mc_key = ''METRIC_SIGNAL_LOCK_COUNT'', mc_type = ''LONG'', mc_readOnly = True, mc_isMetric = True,
       mc_description = ''Total count of successful signal lock acquisitions since last reset''\<rparr>,
      \<lparr>mc_key = ''METRIC_LAST_SIGNAL_LOCK_TIME'', mc_type = ''LONG'', mc_readOnly = True, mc_isMetric = True,
       mc_description = ''Most recent signal lock time in milliseconds''\<rparr>,
      \<lparr>mc_key = ''METRIC_LAST_RESET_TIMESTAMP'', mc_type = ''LONG'', mc_readOnly = True, mc_isMetric = True,
       mc_description = ''Wall-clock timestamp (ms since epoch) when metrics were last reset''\<rparr>]"

definition shipped_ports :: "port_config list" where
  "shipped_ports =
     [\<lparr>cp_id = 0, cp_name = ''Front Panel Composite'', cp_description = ''Front panel composite video input'',
       cp_supportedProperties = shipped_properties, cp_propertyMetadata = shipped_metadata\<rparr>,
      \<lparr>cp_id = 1, cp_name = ''Rear Composite'', cp_description = ''Rear panel composite video input'',
       cp_supportedProperties = shipped_properties, cp_propertyMetadata = shipped_metadata\<rparr>]"

definition shipped_config :: hfp_config where
  "shipped_config =
     \<lparr>hc_interfaceVersion = ''current'', hc_ports = shipped_ports, hc_halVersion = ''1.0.0'',
      hc_maxPorts = 2, hc_maximumConcurrentStartedPorts = 1,
      hc_supportedProperties = shipped_properties, hc_propertyMetadata = shipped_metadata,
      hc_macrovisionDetectionSupported = False\<rparr>"

text \<open>The capabilities that the ports should advertise for it.\<close>

definition shipped_entry :: "port_property \<Rightarrow> property_type \<Rightarrow> bool \<Rightarrow> string \<Rightarrow> property_metadata" where
  "shipped_entry k t metric d =
     \<lparr>md_key = k, md_type = t, md_readOnly = True, md_isMetric = metric, md_description = d\<rparr>"

definition shipped_capabilities :: port_capabilities where
  "shipped_capabilities =
     \<lparr>pc_supportedProperties =
        [SIGNAL_STRENGTH, SIGNAL_QUALITY, METRIC_SIGNAL_LOCK_TIME, METRIC_SIGNAL_DROPS, METRIC_UPTIME,
         METRIC_SIGNAL_LOCK_COUNT, METRIC_LAST_SIGNAL_LOCK_TIME, METRIC_LAST_RESET_TIMESTAMP],
      pc_propertyMetadata = Some (map Some
        [shipped_entry SIGNAL_STRENGTH LONG False ''Signal strength in dBm'',
         shipped_entry SIGNAL_QUALITY INTEGER False ''Aggregated signal quality percentage (0..100)'',
         shipped_entry METRIC_SIGNAL_LOCK_TIME LONG True ''Average signal lock time in milliseconds'',
         shipped_entry METRIC_SIGNAL_DROPS LONG True ''Total count of signal drops since last reset'',
         shipped_entry METRIC_UPTIME LONG True ''Total uptime in milliseconds'',
         shipped_entry METRIC_SIGNAL_LOCK_COUNT LONG True
           ''Total count of successful signal lock acquisitions since last reset'',
         shipped_entry METRIC_LAST_SIGNAL_LOCK_TIME LONG True ''Most recent signal lock time in milliseconds'',
         shipped_entry METRIC_LAST_RESET_TIMESTAMP LONG True
           ''Wall-clock timestamp (ms since epoch) when metrics were last reset''])\<rparr>"

lemma shipped_wf: "wf_config shipped_config"
  by code_simp

lemma shipped_mapped: "map mapPortCapabilities shipped_ports = [shipped_capabilities, shipped_capabilities]"
  by code_simp

lemma shipped_limit: "hc_maximumConcurrentStartedPorts shipped_config = 1"
  by (simp add: shipped_config_def)

lemma shipped_document_config: "shipped_document = config_document shipped_config"
  by code_simp

lemma shipped_fits: "68 \<le> bufSize \<Longrightarrow> document_fits bufSize shipped_document"
  by (simp add: shipped_document_def shipped_tokens_def shipped_items_def shipped_item_def)

lemma shipped_represented: "68 \<le> bufSize \<Longrightarrow> represents bufSize (document_kvp shipped_document) shipped_config"
  using config_represented [of bufSize shipped_config] shipped_fits by (simp add: shipped_document_config)

lemma shipped_read_only:
  "\<exists>ms. pc_propertyMetadata shipped_capabilities = Some ms \<and> (\<forall>m. Some m \<in> set ms \<longrightarrow> md_readOnly m)"
  by (auto simp: shipped_capabilities_def shipped_entry_def)

section \<open>Properties\<close>

text \<open>
  C2: the shipped service. Started without options in a system where the shipped file is at the
  default path, the service comes up and serves with the two ports of the file. From then on, in
  every state that clients, control plane and worker can bring about, the ports have the IDs
  0 and 1 and advertise the capabilities of the file, at most one of them is being started,
  started or being stopped, and every controller write, single or batch, is refused and leaves
  the port as it was. The texts of the file need a ut-core buffer of 68 characters.
\<close>

theorem shipped_service:
  assumes "openKvp kDefaultHfpPath = Some (document_kvp shipped_document)"
    and "68 \<le> bufSize" and "32 \<le> longBits"
  shows "\<exists>s0. run_service uenv longBits bufSize openKvp caps0 True [Some argv0] = Serving s0 \<and>
    (\<forall>s. (process_step gm om)\<^sup>*\<^sup>* s0 s \<longrightarrow>
       map m_portId (sys_ports (pr_system s)) = [0, 1] \<and>
       map m_capabilities (sys_ports (pr_system s)) = [shipped_capabilities, shipped_capabilities] \<and>
       cnt (started_phase \<circ> m_state) (sys_ports (pr_system s)) \<le> 1 \<and>
       (\<forall>p \<in> set (sys_ports (pr_system s)). \<forall>env k v kvs.
          fst (setPropertyFromController env k v p) \<noteq> StatusOk \<and>
          snd (setPropertyFromController env k v p) = (p, []) \<and>
          fst (setPropertyMultiFromController env kvs p) \<noteq> StatusOk \<and>
          snd (setPropertyMultiFromController env kvs p) = (p, [])))"
proof -
  obtain s0 where s0: "run_service uenv longBits bufSize openKvp caps0 True [Some argv0] = Serving s0"
    "pr_system s0 = boot_system 1 (profile_ports shipped_config)"
    using default_service [where openKvp = openKvp, OF assms(1) shipped_represented [OF assms(2)] shipped_wf assms(3)]
    by (simp add: shipped_limit) metis
  have "map m_portId (sys_ports (pr_system s)) = [0, 1] \<and>
    map m_capabilities (sys_ports (pr_system s)) = [shipped_capabilities, shipped_capabilities] \<and>
    cnt (started_phase \<circ> m_state) (sys_ports (pr_system s)) \<le> 1" (is "?ids \<and> ?caps \<and> ?limit")
    if "(process_step gm om)\<^sup>*\<^sup>* s0 s" for s
  proof (intro conjI)
    note steps = process_steps_system [OF that, unfolded s0(2)]
    show ?ids
      using act_steps_port_ids [OF steps] by (simp only: profile_port_ids) (simp add: shipped_config_def shipped_ports_def)
    show ?caps
      using act_steps_capabilities [OF steps] shipped_mapped
      by (simp add: boot_system_def profile_ports_def comp_def shipped_config_def)
    show ?limit
      using reachable(2) [OF steps] sys_invD(5,6) [OF reachable(1) [OF steps]]
        cnt_nonneg [of "holds_slot \<circ> snd" "sys_threads (pr_system s)"] by linarith
  qed
  moreover have "m_capabilities p = shipped_capabilities"
    if "map m_capabilities ps = [shipped_capabilities, shipped_capabilities]" "p \<in> set ps" for p ps
    using that by (auto simp: map_eq_Cons_conv)
  ultimately show ?thesis
    using s0(1) read_only_profile_blocks_writes shipped_read_only by metis
qed

theorem shipped_service_witness:
  "\<exists>s0. run_service demo_ut_env 64 256 (\<lambda>path. Some (document_kvp shipped_document)) demo_caps True
      [Some ''RDKCompositeInputService''] = Serving s0 \<and>
     map m_portId (sys_ports (pr_system s0)) = [0, 1]"
  using shipped_service [of "\<lambda>path. Some (document_kvp shipped_document)" 256 64 demo_ut_env demo_caps
      "''RDKCompositeInputService''" scan_map "\<lambda>p. None"]
  by auto

end
