(* ===== verification/Logger.thy ===== *)
theory Logger
  imports Number_Text
begin

text \<open>
  The logging helper (\<open>src/include/common/logger.h\<close>): level names, the line that is written to
  the error stream, and the two-pass formatting over \<open>vsnprintf\<close>. Formatting a format string
  with its arguments is a parameter: the text it denotes, or none when it cannot be encoded.
\<close>

datatype log_level = Debug | Info | Warn | Error | OTHER_LEVEL int

fun level_toString :: "log_level \<Rightarrow> string" where
  "level_toString Debug = ''DEBUG''"
| "level_toString Info = ''INFO''"
| "level_toString Warn = ''WARN''"
| "level_toString Error = ''ERROR''"
| "level_toString (OTHER_LEVEL _) = ''UNKNOWN''"

text \<open>What one call of \<open>log\<close> appends to the error stream.\<close>

definition log_line :: "log_level \<Rightarrow> string \<Rightarrow> string \<Rightarrow> string" where
  "log_line level tag msg =
     (if tag \<noteq> [] then ''['' @ level_toString level @ '']['' @ tag @ ''] '' @ msg @ [CHR 0x0A]
      else ''['' @ level_toString level @ ''] '' @ msg @ [CHR 0x0A])"

section \<open>Formatting\<close>

text \<open>
  The C library's \<open>vsnprintf\<close> on a buffer: the number of characters of the whole text, or a
  negative number (an encoding error, or a text longer than \<open>INT_MAX\<close>), and the buffer, of
  which as many characters as fit are overwritten and followed by a NUL.
\<close>

definition int_max :: int where "int_max = 2 ^ 31 - 1"

definition vsnprintf :: "string option \<Rightarrow> string \<Rightarrow> int \<times> string" where
  "vsnprintf text buffer =
     (case text of
        None \<Rightarrow> (-1, buffer)
      | Some t \<Rightarrow>
          if int_max < int (length t) then (-1, buffer)
          else (int (length t),
                if buffer = [] then []
                else (let out = take (length buffer - 1) t @ [CHR 0x00]
                      in out @ drop (length out) buffer)))"

text \<open>\<open>std::string::resize\<close>: cut off, or filled up with NUL.\<close>

definition resize :: "nat \<Rightarrow> string \<Rightarrow> string" where
  "resize n s = take n s @ replicate (n - length s) (CHR 0x00)"

definition vformat :: "(string \<Rightarrow> 'a \<Rightarrow> string option) \<Rightarrow> string \<Rightarrow> 'a \<Rightarrow> string" where
  "vformat formatted formatString argList =
     (let formattedLength = fst (vsnprintf (formatted formatString argList) [])
      in if formattedLength \<le> 0 then []
         else
           (let output = resize (nat formattedLength + 1) [];
                (resultLength, output1) = vsnprintf (formatted formatString argList) output
            in if resultLength < 0 then [] else resize (nat resultLength) output1))"

definition logf :: "(string \<Rightarrow> 'a \<Rightarrow> string option) \<Rightarrow> log_level \<Rightarrow> string \<Rightarrow> 'a \<Rightarrow> string" where
  "logf formatted level fmt args = log_line level [] (vformat formatted fmt args)"

definition logfDebug ::
  "(string \<Rightarrow> 'a \<Rightarrow> string option) \<Rightarrow> string sp \<Rightarrow> int \<Rightarrow> string \<Rightarrow> 'a \<Rightarrow> string" where
  "logfDebug formatted func line fmt args =
     (let msg = vformat formatted fmt args;
          decorated = ''['' @ (case func of Some f \<Rightarrow> f | None \<Rightarrow> ''?'') @ '':'' @ show_int line @ ''] '' @ msg
      in log_line Debug [] decorated)"

section \<open>Properties\<close>

text \<open>
  Formatting neither truncates nor pads. The two passes over \<open>vsnprintf\<close> yield exactly the
  text that the format denotes, without the NUL the buffer is sized for, and the empty string
  when there is no such text or it is longer than the library can report; hence every log
  line is the level, the text and a line end.
\<close>

lemma vformat_exact:
  "vformat formatted fmt args =
     (case formatted fmt args of
        None \<Rightarrow> []
      | Some t \<Rightarrow> if int (length t) \<le> int_max then t else []) \<and>
   logf formatted level fmt args =
     ''['' @ level_toString level @ ''] '' @
     (case formatted fmt args of
        None \<Rightarrow> []
      | Some t \<Rightarrow> if int (length t) \<le> int_max then t else []) @ [CHR 0x0A]"
proof -
  have "vformat formatted fmt args =
     (case formatted fmt args of
        None \<Rightarrow> []
      | Some t \<Rightarrow> if int (length t) \<le> int_max then t else [])"
    by (auto simp: vformat_def vsnprintf_def resize_def Let_def split: option.split)
  then show ?thesis by (simp add: logf_def log_line_def)
qed

end
