(* ===== verification/Spec2Isabelle.thy ===== *)
theory Spec2Isabelle
  imports Port_Typing Port_Announce Port_Replies Port_Locks Resource_Lifetime Service_Death Shipped_Profile Logger
begin

text \<open>
  Verification of the RDK CompositeInput vcomponent.

  The program. \<open>main\<close> (\<open>src/service\<close>) reads the command line, hands path and control-plane
  port to \<open>CompositeInputManager\<close> and publishes the manager as a Binder service. The manager
  (\<open>src/aidl/vcomponent_CompositeInputManager.cpp\<close>) starts the UT control plane
  (\<open>src/controller\<close>), parses the HFP profile (\<open>src/utility\<close>), builds one
  \<open>CompositeInputPort\<close> per profile entry, and runs a worker that takes control-plane messages
  from a queue and routes them to ports. A client opens a port and gets a
  \<open>CompositeInputController\<close> for the session, by which it starts, stops and writes the port;
  observers registered with a port are told of state and property changes through the two
  dispatchers. Control-plane messages play the hardware. A process-wide count bounds the ports
  that are started at a time, and the death of a client cleans its session up.

  The theories and the code they model.

  \<^item> \<open>CI_Prelude\<close>: C++ types (null pointers, out parameters, fixed-width integers, IEEE values
    as far as they are looked at), counting lemmas, and the three general interfaces:
    \<open>transition_system\<close> (invariants of reachable states), \<open>history\<close> (a system and its recorder
    have the same runs) and \<open>simulation\<close>.
  \<^item> \<open>Aidl_Types\<close>: the AIDL values the code passes, as evidenced by its use of them.
  \<^item> \<open>Event_Dispatch\<close>: the two dispatchers. libbinder, the clients, the allocator and the clocks
    are the record \<open>binder_env\<close>; a dispatch is the list of interactions it issues. The locale
    \<open>broadcast\<close> is what the port relies on.
  \<^item> \<open>Helper\<close>, \<open>Number_Text\<close>: the token tables, \<open>trim\<close>, the capability mappings; \<open>strtol\<close> and
    decimal text. The locale \<open>token_table\<close> is shared by the four token parsers.
  \<^item> \<open>Ut_Commands\<close>: the control-plane vocabulary and the ut-core key/value interface.
  \<^item> \<open>Port_State\<close>: the members of the port, construction, queries, the observer registry
    (locale \<open>listener_registry\<close>) and the started-port count (locale \<open>slot_pool\<close>).
  \<^item> \<open>Port_Session\<close>: open, close, start, stop, resetMetrics and the clean-up after a client's
    death; every critical section of the code is a definition, every operation composes its
    sections and callbacks in code order.
  \<^item> \<open>Port_Properties\<close>: the property reads and writes (locale \<open>property_store\<close>).
  \<^item> \<open>Port_Ut\<close>: the five control-plane commands and their dispatcher.
  \<^item> \<open>Port_Contract\<close>: the lifecycle graph and the port invariant, kept by every section.
  \<^item> \<open>Session_Spec\<close>: an abstract session and the proof that the operations implement it.
  \<^item> \<open>Port_Behaviour\<close>: what ends with a session, who sees a report, delivery of state events.
  \<^item> \<open>Port_Tasks\<close>, \<open>Task_Ownership\<close>, \<open>Port_Interleaving\<close>: the same sections run from
    concurrent threads. A task is the program counter of one call, one action is one critical
    section, callback dispatch or libbinder call, and the actions of all threads on all ports
    interleave freely.
  \<^item> \<open>Parse_Config\<close>: the profile parser with its error messages, over an opened document.
  \<^item> \<open>Profile_Document\<close>: profiles as YAML trees with look-up by dotted keys, and configurations
    written as such trees.
  \<^item> \<open>Ut_Controller\<close>: life of the control plane, message queue (locale \<open>fifo\<close>), inventory.
  \<^item> \<open>Port_Controller\<close>: the controller facade (locale \<open>port_method\<close>) and the controllers that
    clients keep beyond their session.
  \<^item> \<open>Manager\<close>: settings, construction, profile to ports and capabilities, queries, routing.
  \<^item> \<open>Service\<close>: command line and entry point.
  \<^item> \<open>Logger\<close>: the line a log call writes and the two-pass formatting behind it.

  The theories that put the components together.

  \<^item> \<open>Port_Typing\<close>: which types the cached property values keep, over all
    interleavings of calls that respect the declared types.
  \<^item> \<open>Death_Cleanup\<close>: the clean-up after a client's death under all interleavings: a stale notice
    changes nothing; but for the one interleaving that \<open>deferred_cleanup_can_be_lost\<close> exhibits, a
    deferred clean-up always has an owner and the session of a dead client ends.
  \<^item> \<open>Service_Spec\<close>: the service as independent abstract sessions over one pool of slots, and the
    proof that the ports implement it.
  \<^item> \<open>Service_Process\<close>: the process \<open>main\<close> starts: the ports with their threads, the control
    plane's queue and the worker, interleaved; \<open>run_service\<close> leads there from a command line.
  \<^item> \<open>Service_Liveness\<close>: infinite runs of that process under a scheduler that neglects no thread
    (locale \<open>variant_descent\<close>: a variant that helpful actions lower).
  \<^item> \<open>Service_Death\<close>: the death of a client in such a run: its session ends.
  \<^item> \<open>Port_Announce\<close>: runs recorded with the transitions the ports make: what observers are sent
    is balanced against what has happened.
  \<^item> \<open>Port_Replies\<close>: runs recorded with what each call has seen and done: its reply tells the truth.
  \<^item> \<open>Shipped_Profile\<close>: the profile \<open>vcomponent_configurations/hfp-compositeinput.yaml\<close>, text by
    text, and the service that is started with it.
  \<^item> \<open>Port_Locks\<close>: the two mutexes under the critical sections. A thread acquires, looks, nests,
    writes back and releases in steps of its own; the sections turn out to be the atomic actions
    of \<open>Port_Interleaving\<close> and the mutexes never block all threads.
  \<^item> \<open>Resource_Lifetime\<close>: the ut-core instances and message buffers that the parser, the worker and
    the message callback own, with every creation, use and release.

  What the lemmas show. Sequential behaviour: the session refinement, the functional behaviour of
  every operation, error branches without effect. Concurrent behaviour: the system invariant (who
  owns a transitional state, who holds a slot) holds in every reachable state, hence the start
  limit, the absence of slot leaks and exclusive transitions. Every transition is announced once
  to every registered observer, but for those of an open whose client cannot be linked to death.
  The reply of a call says which transitions it made, and a refused call wrote nothing and had
  seen a reason for the refusal. Two schedules show where the clean-up after a client's death
  falls short of its comments, two more where a start sends an older signal value after a newer
  one. The process: from any command line the ports are those of the profile it names and stay
  within its limit, the control plane is served in order, and under a fair scheduler every message
  is served; once calls and messages cease, every call returns, the books balance and, but for the
  schedule that loses a clean-up, a dead client's session is over. Below the sections: the mutexes
  make them atomic, deadlock is impossible and no callback runs under a mutex; owned objects are
  released once. Data: the parser accepts exactly what is well formed, round trips of integers,
  profile documents and command lines, the queue is a fifo. With the shipped profile the service
  has two read-only ports of which one can be started at a time.

  Bounds and fuel. A call has at most 20 actions (\<open>remaining\<close>), so \<open>run_task 20\<close> finishes every
  call. An integer field of the profile is accepted exactly when it fits 32 bits.
  \<open>utWorkerLoop\<close> is given a number of turns; the theorem about it holds for any
  number, as the loop of the code runs until it is stopped. \<open>long\<close> has
  \<open>longBits\<close> bits, any number that the theorems name (32 or 64 in practice). The
  session epoch wraps as a 64-bit word.

  Parameters. libbinder, the clients, the clocks and the allocator (\<open>binder_env\<close>); ut-core: opened
  key/value documents (\<open>kvp\<close>; \<open>document_kvp\<close> states their documented behaviour on YAML trees),
  the map look-up (\<open>map_value_spec\<close> states its documented behaviour) and the control plane (\<open>ut_env\<close>); the value of a default-constructed \<open>PlatformCapabilities\<close>.

  Not modelled. The log calls inside the operations (\<open>Logger\<close> says what one writes), the generated
  AIDL classes and the build files. The mutexes of the message queue, the settings and the port
  list are not represented, as each guards one block that waits for nothing; a sleeping worker is
  a turn that changes nothing. The profile that \<open>main\<close> reads before it starts the manager is
  only logged.
\<close>

end
